theory Spec2Isabelle
  imports Complex_Main
begin

section \<open>Strings and paths\<close>

text \<open>
  Python strings are modelled as \<open>string\<close>. \<open>endswith\<close> is \<open>str.endswith\<close>,
  \<open>strip_suffix n s\<close> is the slice \<open>s[:-n]\<close> for \<open>n > 0\<close>, \<open>contains sub s\<close> is
  \<open>sub in s\<close>.
\<close>

definition endswith :: "string \<Rightarrow> string \<Rightarrow> bool" where
  "endswith s suf = (length suf \<le> length s \<and> drop (length s - length suf) s = suf)"

definition strip_suffix :: "nat \<Rightarrow> string \<Rightarrow> string" where
  "strip_suffix n s = take (length s - n) s"

fun contains :: "string \<Rightarrow> string \<Rightarrow> bool" where
  "contains sub [] = (sub = [])"
| "contains sub (c # cs) = (take (length sub) (c # cs) = sub \<or> contains sub cs)"

text \<open>
  \<open>os.path.basename\<close> and \<open>os.path.join\<close> in their POSIX form: the base name is what
  follows the last separator; joining puts one separator between the parts unless the
  directory is empty or already ends with one, and an absolute second part replaces the
  first.
\<close>

definition basename :: "string \<Rightarrow> string" where
  "basename p = rev (takeWhile (\<lambda>c. c \<noteq> CHR ''/'') (rev p))"

definition path_join :: "string \<Rightarrow> string \<Rightarrow> string" where
  "path_join d f =
     (if f \<noteq> [] \<and> hd f = CHR ''/'' then f
      else if d = [] \<or> last d = CHR ''/'' then d @ f
      else d @ CHR ''/'' # f)"

section \<open>The editor state\<close>

text \<open>
  The fields of \<open>Editor\<close> that the modelled methods read or write. The source's
  \<open>_building\<close> and \<open>_just_built\<close> are \<open>building\<close> and \<open>just_built\<close>. Times are
  \<open>time.time()\<close> readings in seconds, kept exact as rationals. \<open>hotload_threads\<close> lists,
  by the time of the trigger, the \<open>delayed_hotload\<close> threads started so far: each entry
  is one rebuild that fires.
\<close>

record editor =
  lines :: "string list"
  path :: string
  original_hd_path :: string
  current_shader_path :: "string option"
  view_mode :: string
  viewing_hd :: bool
  status :: string
  log_lines :: "string list"
  terminal_lines :: "string list"
  terminal_vscroll :: int
  auto_hotload_enabled :: bool
  building :: bool
  just_built :: bool
  last_hotload_time :: rat
  hotload_threads :: "rat list"

text \<open>
  An editor with the flags as \<open>Editor.__init__\<close> sets them (auto-hotload enabled, not
  building, no hotload yet) and an empty buffer, for the examples.
\<close>

definition blank_editor :: editor where
  "blank_editor =
     \<lparr>lines = [[]], path = [], original_hd_path = [], current_shader_path = None,
      view_mode = ''hd'', viewing_hd = True, status = [], log_lines = [],
      terminal_lines = [], terminal_vscroll = 0, auto_hotload_enabled = True,
      building = False, just_built = False, last_hotload_time = 0, hotload_threads = []\<rparr>"

section \<open>Terminal buffer\<close>

definition TERMINAL_MAX_LINES :: nat where
  "TERMINAL_MAX_LINES = 500"

text \<open>
  \<open>_add_terminal_line\<close>: append, drop the front line when the buffer is over the
  limit (\<open>pop(0)\<close>), then scroll to the bottom. \<open>line_height\<close> is
  \<open>self.font.get_linesize()\<close>.
\<close>

definition add_terminal_line :: "int \<Rightarrow> string \<Rightarrow> editor \<Rightarrow> editor" where
  "add_terminal_line line_height line e =
     (let appended = terminal_lines e @ [line];
          kept = (if length appended > TERMINAL_MAX_LINES then tl appended else appended);
          max_scroll = max 0 (int (length kept) * line_height - 100)
      in e\<lparr>terminal_lines := kept, terminal_vscroll := max_scroll\<rparr>)"

section \<open>Shader compiler invocation\<close>

text \<open>
  The loop body shared by \<open>compile_shaders_only\<close> and the shader step of
  \<open>hotload_dll\<close>: the output path, the stage flag, and the command line.
\<close>

definition spv_path_of :: "string \<Rightarrow> string" where
  "spv_path_of shader_path =
     (if endswith shader_path ''.glsl'' then strip_suffix 5 shader_path @ ''.spv''
      else if endswith shader_path ''.vert'' then shader_path @ ''.spv''
      else if endswith shader_path ''.frag'' then shader_path @ ''.spv''
      else if endswith shader_path ''.comp'' then shader_path @ ''.spv''
      else shader_path @ ''.spv'')"

definition stage_flag_of :: "string \<Rightarrow> string option" where
  "stage_flag_of shader_path =
     (if endswith shader_path ''.comp'' then Some ''-fshader-stage=compute''
      else if endswith shader_path ''.vert'' then Some ''-fshader-stage=vertex''
      else if endswith shader_path ''.frag'' then Some ''-fshader-stage=fragment''
      else if endswith shader_path ''.geom'' then Some ''-fshader-stage=geometry''
      else None)"

definition shader_compile_cmd :: "string \<Rightarrow> string \<Rightarrow> string list" where
  "shader_compile_cmd glslc_path shader_path =
     [glslc_path]
     @ (case stage_flag_of shader_path of Some flag \<Rightarrow> [flag] | None \<Rightarrow> [])
     @ [shader_path, ''-o'', spv_path_of shader_path]"

text \<open>The extensions \<open>find_shaders_in_project\<close> collects.\<close>

definition shader_extensions :: "string list" where
  "shader_extensions = [''.vert'', ''.frag'', ''.glsl'', ''.comp'', ''.geom'', ''.tesc'', ''.tese'']"

definition is_shader_file :: "string \<Rightarrow> bool" where
  "is_shader_file file = list_ex (endswith file) shader_extensions"

section \<open>Running an external tool\<close>

text \<open>
  What \<open>subprocess.run\<close> does with a command is the environment's choice: the process
  runs to completion with a return code and the captured streams (\<open>None\<close> when the
  stream was not captured), or the executable is not found, or the call raises something
  else (for instance \<open>PermissionError\<close>), which \<open>_run_step\<close> does not catch.
\<close>

datatype py_exception = PermissionError | OSError string | OtherException string

datatype proc_outcome =
    Completed int "string option" "string option"
  | FileNotFoundError
  | Raised py_exception

text \<open>\<open>str(n)\<close> for an integer, \<open>sep.join(xs)\<close>, and \<open>x or ""\<close>.\<close>

definition digit_char :: "nat \<Rightarrow> char" where
  "digit_char d = ''0123456789'' ! d"

fun str_nat :: "nat \<Rightarrow> string" where
  "str_nat n = (if n < 10 then [digit_char n] else str_nat (n div 10) @ [digit_char (n mod 10)])"

declare str_nat.simps [simp del]

definition str_int :: "int \<Rightarrow> string" where
  "str_int i = (if i < 0 then CHR ''-'' # str_nat (nat (- i)) else str_nat (nat i))"

fun join_with :: "string \<Rightarrow> string list \<Rightarrow> string" where
  "join_with sep [] = []"
| "join_with sep [x] = x"
| "join_with sep (x # y # ys) = x @ sep @ join_with sep (y # ys)"

definition or_empty :: "string option \<Rightarrow> string" where
  "or_empty s = (case s of None \<Rightarrow> [] | Some t \<Rightarrow> t)"

text \<open>
  \<open>str.splitlines\<close>: a line ends at LF, VT, FF, CR, FS, GS, RS or NEL, and CR LF is one
  boundary; a last line without a boundary is kept when it is not empty. (The two
  remaining boundaries of Python, U+2028 and U+2029, are outside an 8-bit \<open>char\<close>.)
\<close>

definition is_linebreak :: "char \<Rightarrow> bool" where
  "is_linebreak c = (c \<in> {CHR 0x0A, CHR 0x0B, CHR 0x0C, CHR 0x0D, CHR 0x1C, CHR 0x1D, CHR 0x1E, CHR 0x85})"

fun splitlines_from :: "string \<Rightarrow> string \<Rightarrow> string list" where
  "splitlines_from cur [] = (if cur = [] then [] else [cur])"
| "splitlines_from cur [c] = (if is_linebreak c then [cur] else [cur @ [c]])"
| "splitlines_from cur (c # d # cs) =
     (if c = CHR 0x0D \<and> d = CHR 0x0A then cur # splitlines_from [] cs
      else if is_linebreak c then cur # splitlines_from [] (d # cs)
      else splitlines_from (cur @ [c]) (d # cs))"

definition splitlines :: "string \<Rightarrow> string list" where
  "splitlines s = splitlines_from [] s"

text \<open>
  \<open>_run_step(label, cmd, capture_output=True)\<close>, given what \<open>subprocess.run\<close> did.
  The result is \<open>Inr (returned value, editor)\<close>, or \<open>Inl\<close> an exception that escapes.
\<close>

definition run_step ::
  "proc_outcome \<Rightarrow> string \<Rightarrow> string list \<Rightarrow> bool \<Rightarrow> editor \<Rightarrow> py_exception + bool \<times> editor" where
  "run_step outcome label cmd capture_output e =
     (case outcome of
        Completed returncode stdout stderr \<Rightarrow>
          if returncode \<noteq> 0 then
            let out = or_empty stdout @ or_empty stderr;
                e1 = e\<lparr>status := label @ '' failed: '' @ str_int returncode\<rparr>;
                e2 = (if out \<noteq> [] then e1\<lparr>log_lines := log_lines e1 @ splitlines out\<rparr> else e1)
            in Inr (False, e2)
          else if capture_output then
            let e1 = e\<lparr>status := label @ '' ok''\<rparr>;
                e2 = (if or_empty stdout \<noteq> []
                      then e1\<lparr>log_lines := log_lines e1 @ splitlines (or_empty stdout)\<rparr> else e1);
                e3 = (if or_empty stderr \<noteq> []
                      then e2\<lparr>log_lines := log_lines e2 @ splitlines (or_empty stderr)\<rparr> else e2)
            in Inr (True, e3)
          else
            Inr (True, e\<lparr>status := label @ '' launched'',
                          log_lines := log_lines e @ [label @ '': launched '' @ join_with '' '' cmd]\<rparr>)
      | FileNotFoundError \<Rightarrow>
          Inr (False, e\<lparr>status := label @ '' failed: cmd not found'',
                         log_lines := log_lines e @ [label @ '': command not found'']\<rparr>)
      | Raised exn \<Rightarrow> Inl exn)"

section \<open>Auto-hotload triggers\<close>

text \<open>
  The files the editor reads and writes are a map from path to content.
  \<open>has_hot_systems\<close> reads the original \<open>.hd\<close> file; any failure to read it gives
  \<open>False\<close>.
\<close>

type_synonym files = "string \<rightharpoonup> string"

definition has_hot_systems :: "files \<Rightarrow> editor \<Rightarrow> bool" where
  "has_hot_systems fs e =
     (if original_hd_path e = [] \<or> \<not> endswith (original_hd_path e) ''.hd'' then False
      else (case fs (original_hd_path e) of
              None \<Rightarrow> False
            | Some content \<Rightarrow> contains ''@hot'' content))"

text \<open>
  \<open>Editor.save\<close>. \<open>io_error\<close> is the exception \<open>os.makedirs\<close> or \<open>open\<close> raises, if
  any: it escapes, and nothing after it runs. \<open>now\<close> is the reading of \<open>time.time()\<close>.
  Starting the \<open>delayed_hotload\<close> thread is recorded in \<open>hotload_threads\<close>.
\<close>

definition save_path_of :: "editor \<Rightarrow> string" where
  "save_path_of e =
     (if view_mode e = ''shader'' \<and> or_empty (current_shader_path e) \<noteq> []
        then or_empty (current_shader_path e)
      else if view_mode e = ''cpp'' \<and> \<not> viewing_hd e then path e
      else if view_mode e = ''hr'' then path e
      else original_hd_path e)"

fun save ::
  "py_exception option \<Rightarrow> rat \<Rightarrow> files \<times> editor \<Rightarrow> py_exception + files \<times> editor" where
  "save (Some exn) now (fs, e) = Inl exn"
| "save None now (fs, e) =
     (let save_path = save_path_of e;
          fs1 = fs(save_path \<mapsto> join_with [CHR 0x0A] (lines e));
          e1 = e\<lparr>status := ''Saved '' @ basename save_path\<rparr>
      in if view_mode e1 = ''hd'' \<and> auto_hotload_enabled e1 \<and> has_hot_systems fs1 e1
            \<and> \<not> building e1 \<and> \<not> just_built e1
         then (if now - last_hotload_time e1 > 2
               then Inr (fs1, e1\<lparr>last_hotload_time := now,
                                 hotload_threads := hotload_threads e1 @ [now],
                                 status := ''Saved '' @ save_path @ '' - Auto hotloading...''\<rparr>)
               else Inr (fs1, e1))
         else Inr (fs1, e1))"

text \<open>
  \<open>HotReloadHandler.on_modified\<close>. The handler keeps \<open>last_modified\<close>; \<open>abspath\<close> is
  \<open>os.path.abspath\<close> (it depends on the working directory).
\<close>

record fs_event =
  is_directory :: bool
  src_path :: string

record hot_reload_handler =
  last_modified :: rat

fun on_modified ::
  "(string \<Rightarrow> string) \<Rightarrow> files \<Rightarrow> rat \<Rightarrow> fs_event \<Rightarrow> hot_reload_handler \<times> editor
     \<Rightarrow> hot_reload_handler \<times> editor" where
  "on_modified abspath fs now event (h, e) =
     (if is_directory event then (h, e)
      else if endswith (src_path event) ''.dll'' \<or> endswith (src_path event) ''.dll.new'' then (h, e)
      else if endswith (src_path event) ''.hd''
              \<and> abspath (src_path event) = abspath (original_hd_path e) then
        (if building e \<or> just_built e then (h, e)
         else if now - last_modified h > 1 then
           (let h1 = h\<lparr>last_modified := now\<rparr> in
            if now - last_hotload_time e > 2 then
              (if auto_hotload_enabled e \<and> has_hot_systems fs e
               then (h1, e\<lparr>last_hotload_time := now,
                            hotload_threads := hotload_threads e @ [now]\<rparr>)
               else (h1, e))
            else (h1, e))
         else (h, e))
      else (h, e))"

text \<open>
  A run of the editor: saves and watcher notifications, each with the clock reading it
  sees. An exception escaping \<open>save\<close> ends the run; the state reached is returned with
  it.
\<close>

datatype ui_event = Save "py_exception option" rat | Modified fs_event rat

fun event_time :: "ui_event \<Rightarrow> rat" where
  "event_time (Save _ t) = t"
| "event_time (Modified _ t) = t"

record session =
  files_of :: files
  handler_of :: hot_reload_handler
  editor_of :: editor

fun handle_event :: "(string \<Rightarrow> string) \<Rightarrow> ui_event \<Rightarrow> session \<Rightarrow> py_exception + session" where
  "handle_event abspath (Save io_error now) s =
     (case save io_error now (files_of s, editor_of s) of
        Inl exn \<Rightarrow> Inl exn
      | Inr (fs', e') \<Rightarrow> Inr (s\<lparr>files_of := fs', editor_of := e'\<rparr>))"
| "handle_event abspath (Modified event now) s =
     (case on_modified abspath (files_of s) now event (handler_of s, editor_of s) of
        (h', e') \<Rightarrow> Inr (s\<lparr>handler_of := h', editor_of := e'\<rparr>))"

fun run_events :: "(string \<Rightarrow> string) \<Rightarrow> ui_event list \<Rightarrow> session \<Rightarrow> session \<times> py_exception option" where
  "run_events abspath [] s = (s, None)"
| "run_events abspath (ev # evs) s =
     (case handle_event abspath ev s of
        Inl exn \<Rightarrow> (s, Some exn)
      | Inr s' \<Rightarrow> run_events abspath evs s')"

text \<open>A project with one hot system, open in the editor, and a notification for its file.\<close>

definition example_session :: session where
  "example_session =
     \<lparr>files_of = [''proj/game.hd'' \<mapsto> ''@hot system spin''],
      handler_of = \<lparr>last_modified = 0\<rparr>,
      editor_of = blank_editor\<lparr>path := ''proj/game.hd'', original_hd_path := ''proj/game.hd''\<rparr>\<rparr>"

definition example_event :: fs_event where
  "example_event = \<lparr>is_directory = False, src_path = ''proj/game.hd''\<rparr>"

section \<open>The DLL swap of \<open>hotload_dll\<close>\<close>

text \<open>
  The file system is a map from path to content. Whether the operating system refuses
  an operation (the DLL is still loaded by the game, a permission is missing) is the
  environment's choice; \<open>os.remove\<close> and \<open>os.rename\<close> also fail on a missing source.
  \<open>None\<close> stands for the \<open>OSError\<close> raised; the file system is then unchanged.
  Only the loop changes the file system. A rename moves the content to the destination;
  whether a rename onto an existing file overwrites it (POSIX) or fails (Windows) makes
  no difference here, since the loop only ever renames onto a vacant path (lemma
  \<open>replace_dll_valid\<close> below).
\<close>

definition path_exists :: "files \<Rightarrow> string \<Rightarrow> bool" where
  "path_exists fs p = (fs p \<noteq> None)"

definition os_remove :: "bool \<Rightarrow> string \<Rightarrow> files \<Rightarrow> files option" where
  "os_remove refused p fs = (if refused \<or> fs p = None then None else Some (fs(p := None)))"

definition os_rename :: "bool \<Rightarrow> string \<Rightarrow> string \<Rightarrow> files \<Rightarrow> files option" where
  "os_rename refused src dst fs =
     (if refused \<or> fs src = None then None else Some ((fs(src := None))(dst := fs src)))"

text \<open>
  The environment of one swap: for each attempt, whether the removal of the old backup,
  the rename of the loaded DLL to the backup, the rename of the new DLL to the loaded
  path, and the final removal of the backup are refused.
\<close>

record os_env =
  remove_old_refused :: "nat \<Rightarrow> bool"
  rename_old_refused :: "nat \<Rightarrow> bool"
  rename_new_refused :: "nat \<Rightarrow> bool"
  cleanup_refused :: "nat \<Rightarrow> bool"

text \<open>
  \<open>str.replace(old, "")\<close> for a non-empty \<open>old\<close>, and the paths of one hot DLL:
  \<open>system_name\<close> is the base name of the \<open>*_hot.dll.cpp\<close> source without that suffix,
  the loaded module is \<open>system_name.dll\<close>, the freshly compiled one \<open>.dll.new\<close>, the
  backup \<open>.dll.old\<close>, all in the project directory.
\<close>

function remove_all :: "string \<Rightarrow> string \<Rightarrow> string" where
  "remove_all old [] = []"
| "remove_all old (c # cs) =
     (if old \<noteq> [] \<and> take (length old) (c # cs) = old
      then remove_all old (drop (length old) (c # cs))
      else c # remove_all old cs)"
  by pat_completeness auto
termination
  by (relation "measure (\<lambda>(old, s). length s)") auto

record dll_paths =
  dll_name :: string
  dll_path :: string
  dll_new_path :: string
  dll_old_path :: string

definition dll_paths_of :: "string \<Rightarrow> string \<Rightarrow> dll_paths" where
  "dll_paths_of project_dir dll_cpp_path =
     (let dll_cpp_name = basename dll_cpp_path;
          system_name = remove_all ''_hot.dll.cpp'' dll_cpp_name;
          name = system_name @ ''.dll''
      in \<lparr>dll_name = name,
          dll_path = path_join project_dir name,
          dll_new_path = path_join project_dir (name @ ''.new''),
          dll_old_path = path_join project_dir (name @ ''.old'')\<rparr>)"

text \<open>
  The lines the loop appends to \<open>log_lines\<close>, by kind (the text of an exception is the
  operating system's):
  \<^item> \<open>DllLocked w k n\<close>: "Hotload: DLL locked, waiting w s for game to unload... (attempt k/n)"
  \<^item> \<open>DllStillLocked n\<close>: "Hotload: DLL still locked after n attempts"
  \<^item> \<open>MakeSureRunning\<close>: "Hotload: Make sure the game is running and will detect DLL changes"
  \<^item> \<open>RebuiltOk name\<close>: "Hotload: name rebuilt successfully"
  \<^item> \<open>RenameErrorRetry w\<close>: "Hotload: Error renaming DLL: e, retrying in w s..."
  \<^item> \<open>RenameFailed\<close>: "Hotload: Failed to rename DLL: e"
  \<^item> \<open>NewDllNotFound p\<close>: "Hotload: New DLL file not found: p"
  \<^item> \<open>CouldNotReplace name n\<close>: "ERROR: Could not replace name (still locked after n attempts)"
\<close>

datatype hotload_msg =
    DllLocked rat nat nat
  | DllStillLocked nat
  | MakeSureRunning
  | RebuiltOk string
  | RenameErrorRetry rat
  | RenameFailed
  | NewDllNotFound string
  | CouldNotReplace string nat

text \<open>
  The state of the retry loop. \<open>slept\<close> lists the arguments of \<open>time.sleep\<close> in order,
  as exact rationals (the source computes \<open>1.0 + attempt * 0.2\<close> in floating point).
  \<open>attempts\<close> counts the executions of the loop body, and \<open>trace\<close> records every
  operation that changed the file system, with the file system before and after it; the
  two are observations of the run, the code does not read them.
\<close>

datatype fs_op = OpRemove string | OpRename string string

record swap_state =
  disk :: files
  hotload_log :: "hotload_msg list"
  slept :: "rat list"
  replaced :: bool
  any_replaced :: bool
  attempts :: nat
  trace :: "(fs_op \<times> files \<times> files) list"

definition log_msg :: "hotload_msg \<Rightarrow> swap_state \<Rightarrow> swap_state" where
  "log_msg m st = st\<lparr>hotload_log := hotload_log st @ [m]\<rparr>"

definition sleep :: "rat \<Rightarrow> swap_state \<Rightarrow> swap_state" where
  "sleep seconds st = st\<lparr>slept := slept st @ [seconds]\<rparr>"

definition fs_write :: "fs_op \<Rightarrow> files \<Rightarrow> swap_state \<Rightarrow> swap_state" where
  "fs_write op fs' st = st\<lparr>disk := fs', trace := trace st @ [(op, disk st, fs')]\<rparr>"

definition try_remove :: "bool \<Rightarrow> string \<Rightarrow> swap_state \<Rightarrow> swap_state option" where
  "try_remove refused p st =
     (case os_remove refused p (disk st) of
        None \<Rightarrow> None
      | Some fs' \<Rightarrow> Some (fs_write (OpRemove p) fs' st))"

definition try_rename :: "bool \<Rightarrow> string \<Rightarrow> string \<Rightarrow> swap_state \<Rightarrow> swap_state option" where
  "try_rename refused src dst st =
     (case os_rename refused src dst (disk st) of
        None \<Rightarrow> None
      | Some fs' \<Rightarrow> Some (fs_write (OpRename src dst) fs' st))"

definition max_retries :: nat where
  "max_retries = 15"

datatype loop_ctl = Continue | Break

text \<open>
  The inner \<open>try\<close> of the first step: remove a previous backup, rename the loaded DLL
  to the backup, sleep 0.1 s. \<open>Inl\<close> is the state in which \<open>OSError\<close> was raised.
\<close>

definition retire_old :: "os_env \<Rightarrow> dll_paths \<Rightarrow> nat \<Rightarrow> swap_state \<Rightarrow> swap_state + swap_state" where
  "retire_old env ps attempt st =
     (case (if path_exists (disk st) (dll_old_path ps)
            then try_remove (remove_old_refused env attempt) (dll_old_path ps) st
            else Some st) of
        None \<Rightarrow> Inl st
      | Some st1 \<Rightarrow>
          (case try_rename (rename_old_refused env attempt) (dll_path ps) (dll_old_path ps) st1 of
             None \<Rightarrow> Inl st1
           | Some st2 \<Rightarrow> Inr (sleep (1 / 10) st2)))"

text \<open>The handler of that \<open>try\<close>: back off and retry, or give up on the last attempt.\<close>

definition still_locked :: "nat \<Rightarrow> swap_state \<Rightarrow> loop_ctl \<times> swap_state" where
  "still_locked attempt st =
     (if attempt < max_retries - 1 then
        (let wait_time = 1 + of_nat attempt * (2 / 10)
         in (Continue, sleep wait_time (log_msg (DllLocked wait_time (attempt + 1) max_retries) st)))
      else (Break, log_msg MakeSureRunning (log_msg (DllStillLocked max_retries) st)))"

text \<open>The best-effort removal of the backup after a committed swap.\<close>

definition cleanup_backup :: "os_env \<Rightarrow> dll_paths \<Rightarrow> nat \<Rightarrow> swap_state \<Rightarrow> swap_state" where
  "cleanup_backup env ps attempt st =
     (if path_exists (disk st) (dll_old_path ps) then
        (case try_remove (cleanup_refused env attempt) (dll_old_path ps) st of
           None \<Rightarrow> st
         | Some st' \<Rightarrow> st')
      else st)"

text \<open>
  The second step: rename the new DLL to the loaded path and check the result. When the
  rename returns but the check fails, control leaves the \<open>try\<close> and the loop goes on
  with the next attempt.
\<close>

definition promote_new :: "os_env \<Rightarrow> dll_paths \<Rightarrow> nat \<Rightarrow> swap_state \<Rightarrow> loop_ctl \<times> swap_state" where
  "promote_new env ps attempt st =
     (if path_exists (disk st) (dll_new_path ps) then
        (case try_rename (rename_new_refused env attempt) (dll_new_path ps) (dll_path ps) st of
           None \<Rightarrow>
             (if attempt < max_retries - 1
              then (Continue, sleep 1 (log_msg (RenameErrorRetry 1) st))
              else (Break, log_msg RenameFailed st))
         | Some st1 \<Rightarrow>
             (if \<not> path_exists (disk st1) (dll_new_path ps) \<and> path_exists (disk st1) (dll_path ps)
              then (Break, cleanup_backup env ps attempt
                             (log_msg (RebuiltOk (dll_name ps))
                                (st1\<lparr>replaced := True, any_replaced := True\<rparr>)))
              else (Continue, st1)))
      else (Break, log_msg (NewDllNotFound (dll_new_path ps)) st))"

text \<open>
  One execution of the loop body. (The outer \<open>except Exception\<close> of the source is not
  reached: every failure of the modelled operations is an \<open>OSError\<close>, caught by the
  inner handlers.)
\<close>

definition swap_attempt :: "os_env \<Rightarrow> dll_paths \<Rightarrow> nat \<Rightarrow> swap_state \<Rightarrow> loop_ctl \<times> swap_state" where
  "swap_attempt env ps attempt st =
     (let st0 = st\<lparr>attempts := Suc (attempts st)\<rparr> in
      if path_exists (disk st0) (dll_path ps) then
        (case retire_old env ps attempt st0 of
           Inl st1 \<Rightarrow> still_locked attempt st1
         | Inr st1 \<Rightarrow> promote_new env ps attempt st1)
      else promote_new env ps attempt st0)"

text \<open>\<open>for attempt in range(max_retries)\<close>, over the list of attempt numbers left.\<close>

fun swap_loop :: "os_env \<Rightarrow> dll_paths \<Rightarrow> nat list \<Rightarrow> swap_state \<Rightarrow> swap_state" where
  "swap_loop env ps [] st = st"
| "swap_loop env ps (attempt # rest) st =
     (case swap_attempt env ps attempt st of
        (Break, st') \<Rightarrow> st'
      | (Continue, st') \<Rightarrow> swap_loop env ps rest st')"

text \<open>
  The replacement of one DLL, from \<open>replaced = False\<close> to the error line after the
  loop, on the file system \<open>fs0\<close> left by the compiler.
\<close>

definition swap_start :: "files \<Rightarrow> hotload_msg list \<Rightarrow> bool \<Rightarrow> swap_state" where
  "swap_start fs0 log0 any0 =
     \<lparr>disk = fs0, hotload_log = log0, slept = [], replaced = False, any_replaced = any0,
      attempts = 0, trace = []\<rparr>"

definition replace_dll :: "os_env \<Rightarrow> dll_paths \<Rightarrow> files \<Rightarrow> hotload_msg list \<Rightarrow> bool \<Rightarrow> swap_state" where
  "replace_dll env ps fs0 log0 any0 =
     (let st = swap_loop env ps [0..<max_retries] (swap_start fs0 log0 any0)
      in if \<not> replaced st then log_msg (CouldNotReplace (dll_name ps) max_retries) st else st)"

text \<open>
  A step of the trace retires the loaded module safely when it is not a removal of the
  loaded path and the content the loaded path had before it is, after it, still at the
  loaded path or at the backup path.
\<close>

definition retire_safe :: "dll_paths \<Rightarrow> fs_op \<times> files \<times> files \<Rightarrow> bool" where
  "retire_safe ps step =
     (case step of (op, before, after) \<Rightarrow>
        op \<noteq> OpRemove (dll_path ps)
        \<and> (case before (dll_path ps) of
             None \<Rightarrow> True
           | Some c \<Rightarrow> after (dll_path ps) = Some c \<or> after (dll_old_path ps) = Some c))"

text \<open>The trace is a chain of file systems from \<open>start\<close> to \<open>finish\<close>.\<close>

fun trace_chain :: "files \<Rightarrow> (fs_op \<times> files \<times> files) list \<Rightarrow> files \<Rightarrow> bool" where
  "trace_chain start [] finish = (start = finish)"
| "trace_chain start ((op, before, after) # rest) finish =
     (before = start \<and> trace_chain after rest finish)"

text \<open>
  Predicates on the run, for stating its properties. A step is well formed when it is
  one of the three operations of the loop, applied where it can succeed: the removal of
  the backup, the rename of the loaded DLL onto the (absent) backup path, the rename of
  the new DLL onto the (absent) loaded path.
\<close>

definition valid_step :: "dll_paths \<Rightarrow> fs_op \<times> files \<times> files \<Rightarrow> bool" where
  "valid_step ps step =
     (case step of (op, before, after) \<Rightarrow>
        (op = OpRemove (dll_old_path ps) \<and> before (dll_old_path ps) \<noteq> None
           \<and> after = before(dll_old_path ps := None))
      \<or> (op = OpRename (dll_path ps) (dll_old_path ps) \<and> before (dll_path ps) \<noteq> None
           \<and> before (dll_old_path ps) = None
           \<and> after = (before(dll_path ps := None))(dll_old_path ps := before (dll_path ps)))
      \<or> (op = OpRename (dll_new_path ps) (dll_path ps) \<and> before (dll_new_path ps) \<noteq> None
           \<and> before (dll_path ps) = None
           \<and> after = (before(dll_new_path ps := None))(dll_path ps := before (dll_new_path ps))))"

text \<open>
  \<open>was_retired\<close>: the first rename (loaded path to backup path) has succeeded.
  \<open>was_promoted\<close>: the second rename (new DLL to loaded path) has succeeded.
\<close>

definition was_retired :: "dll_paths \<Rightarrow> swap_state \<Rightarrow> bool" where
  "was_retired ps st =
     list_ex (\<lambda>step. fst step = OpRename (dll_path ps) (dll_old_path ps)) (trace st)"

definition was_promoted :: "dll_paths \<Rightarrow> swap_state \<Rightarrow> bool" where
  "was_promoted ps st =
     list_ex (\<lambda>step. fst step = OpRename (dll_new_path ps) (dll_path ps)) (trace st)"

text \<open>The three phases of a swap whose loaded DLL had content \<open>c\<close> and new DLL \<open>n0\<close>.\<close>

definition untouched :: "dll_paths \<Rightarrow> string \<Rightarrow> string option \<Rightarrow> swap_state \<Rightarrow> bool" where
  "untouched ps c n0 st =
     (disk st (dll_path ps) = Some c \<and> disk st (dll_new_path ps) = n0 \<and> \<not> replaced st
      \<and> list_all (\<lambda>step. case step of (op, before, after) \<Rightarrow>
            op = OpRemove (dll_old_path ps)
            \<and> before (dll_path ps) = Some c \<and> after (dll_path ps) = Some c) (trace st))"

definition retired :: "dll_paths \<Rightarrow> string \<Rightarrow> string option \<Rightarrow> swap_state \<Rightarrow> bool" where
  "retired ps c n0 st =
     (disk st (dll_path ps) = None \<and> disk st (dll_old_path ps) = Some c
      \<and> disk st (dll_new_path ps) = n0 \<and> \<not> replaced st
      \<and> was_retired ps st \<and> \<not> was_promoted ps st)"

definition committed :: "dll_paths \<Rightarrow> swap_state \<Rightarrow> bool" where
  "committed ps st = (replaced st \<and> was_retired ps st \<and> was_promoted ps st)"

text \<open>Environments and a project for the examples.\<close>

definition env_of :: "(nat \<Rightarrow> bool) \<Rightarrow> (nat \<Rightarrow> bool) \<Rightarrow> os_env" where
  "env_of old_refused new_refused =
     \<lparr>remove_old_refused = (\<lambda>_. False), rename_old_refused = old_refused,
      rename_new_refused = new_refused, cleanup_refused = (\<lambda>_. False)\<rparr>"

definition example_paths :: dll_paths where
  "example_paths = dll_paths_of ''proj'' ''proj/spin_hot.dll.cpp''"

definition example_fs :: files where
  "example_fs = [''proj/spin.dll'' \<mapsto> ''v1'', ''proj/spin.dll.new'' \<mapsto> ''v2'']"

definition env_locked_for :: "nat \<Rightarrow> os_env" where
  "env_locked_for n = env_of (\<lambda>attempt. attempt < n) (\<lambda>_. False)"

definition env_promote_refused :: os_env where
  "env_promote_refused = env_of (\<lambda>_. False) (\<lambda>_. True)"

definition backup_fs :: files where
  "backup_fs = [''proj/spin.dll'' \<mapsto> ''v1'', ''proj/spin.dll.new'' \<mapsto> ''v2'',
                ''proj/spin.dll.old'' \<mapsto> ''v0'']"


section \<open>Properties: terminal buffer\<close>

lemma add_terminal_line_lines:
  "terminal_lines (add_terminal_line h line e) =
     (if length (terminal_lines e) \<ge> TERMINAL_MAX_LINES
      then tl (terminal_lines e @ [line]) else terminal_lines e @ [line])"
  by (simp add: add_terminal_line_def Let_def)

text \<open>
  C10. Every call of \<open>_add_terminal_line\<close> preserves
  \<open>len(terminal_lines) \<le> TERMINAL_MAX_LINES = 500\<close>; the new line is always the last
  one of the buffer; and when the buffer was full, it is the oldest (front) line that is
  dropped.
\<close>

theorem add_terminal_line_bounded:
  assumes "length (terminal_lines e) \<le> TERMINAL_MAX_LINES"
  shows "length (terminal_lines (add_terminal_line h line e)) \<le> TERMINAL_MAX_LINES
       \<and> TERMINAL_MAX_LINES = 500
       \<and> last (terminal_lines (add_terminal_line h line e)) = line
       \<and> (length (terminal_lines e) = TERMINAL_MAX_LINES \<longrightarrow>
            terminal_lines (add_terminal_line h line e) = tl (terminal_lines e) @ [line])
       \<and> (length (terminal_lines e) < TERMINAL_MAX_LINES \<longrightarrow>
            terminal_lines (add_terminal_line h line e) = terminal_lines e @ [line])"
proof -
  let ?xs = "terminal_lines e"
  have full: "length ?xs = TERMINAL_MAX_LINES \<Longrightarrow> ?xs \<noteq> []"
    by (auto simp: TERMINAL_MAX_LINES_def)
  show ?thesis
  proof (cases "length ?xs = TERMINAL_MAX_LINES")
    case True
    with full have ne: "?xs \<noteq> []" by simp
    then have "tl (?xs @ [line]) = tl ?xs @ [line]" by simp
    with True ne show ?thesis
      by (simp add: add_terminal_line_lines TERMINAL_MAX_LINES_def)
  next
    case False
    with assms have "length ?xs < TERMINAL_MAX_LINES" by simp
    then show ?thesis
      by (simp add: add_terminal_line_lines TERMINAL_MAX_LINES_def)
  qed
qed

theorem add_terminal_line_bounded_witness:
  "length (replicate 500 ''x'') \<le> TERMINAL_MAX_LINES
   \<and> length (terminal_lines (add_terminal_line 18 ''new''
         (blank_editor\<lparr>terminal_lines := replicate 500 ''x''\<rparr>))) = 500
   \<and> last (terminal_lines (add_terminal_line 18 ''new''
         (blank_editor\<lparr>terminal_lines := replicate 500 ''x''\<rparr>))) = ''new''
   \<and> terminal_lines (add_terminal_line 18 ''new''
         (blank_editor\<lparr>terminal_lines := replicate 500 ''x''\<rparr>))
       = replicate 499 ''x'' @ [''new'']
   \<and> terminal_lines (add_terminal_line 18 ''new'' (blank_editor\<lparr>terminal_lines := [''a'']\<rparr>))
       = [''a'', ''new'']"
proof -
  let ?e = "blank_editor\<lparr>terminal_lines := replicate 500 ''x''\<rparr>"
  let ?f = "blank_editor\<lparr>terminal_lines := [''a'']\<rparr>"
  have h: "length (terminal_lines ?e) \<le> TERMINAL_MAX_LINES"
    by (simp add: TERMINAL_MAX_LINES_def)
  have g: "length (terminal_lines ?f) \<le> TERMINAL_MAX_LINES"
    by (simp add: TERMINAL_MAX_LINES_def)
  have t: "tl (replicate 500 ''x'') = replicate 499 ''x''"
    by simp
  from add_terminal_line_bounded [OF h, of 18 "''new''"] t
  have full: "length (replicate 500 ''x'') \<le> TERMINAL_MAX_LINES
   \<and> length (terminal_lines (add_terminal_line 18 ''new'' ?e)) = 500
   \<and> last (terminal_lines (add_terminal_line 18 ''new'' ?e)) = ''new''
   \<and> terminal_lines (add_terminal_line 18 ''new'' ?e) = replicate 499 ''x'' @ [''new'']"
    by (simp add: TERMINAL_MAX_LINES_def)
  have lt: "length (terminal_lines ?f) < TERMINAL_MAX_LINES"
    by (simp add: TERMINAL_MAX_LINES_def)
  from add_terminal_line_bounded [OF g, of 18 "''new''"] lt
  have part: "terminal_lines (add_terminal_line 18 ''new'' ?f) = terminal_lines ?f @ [''new'']"
    by blast
  then have part': "terminal_lines (add_terminal_line 18 ''new'' ?f) = [''a'', ''new'']"
    by simp
  from full part' show ?thesis by blast
qed

section \<open>Properties: shader invocation\<close>

lemma endswith_append [simp]: "endswith (stem @ ext) ext"
  by (simp add: endswith_def)

lemma endswith_other:
  "length ext = length ext' \<Longrightarrow> ext \<noteq> ext' \<Longrightarrow> \<not> endswith (stem @ ext) ext'"
  by (simp add: endswith_def)

text \<open>
  C9 as stated fails: a \<open>.glsl\<close> file is compiled to the path with \<open>.glsl\<close> replaced
  by \<open>.spv\<close> (nothing is appended to the input filename), and neither \<open>.glsl\<close> nor
  \<open>.tesc\<close> nor \<open>.tese\<close> files get a stage flag.
\<close>

theorem shader_invocation_counterexample:
  "shader_compile_cmd ''glslc'' ''sky.glsl'' = [''glslc'', ''sky.glsl'', ''-o'', ''sky.spv'']
   \<and> spv_path_of ''sky.glsl'' \<noteq> ''sky.glsl'' @ ''.spv''
   \<and> is_shader_file ''sky.glsl''
   \<and> stage_flag_of ''sky.glsl'' = None
   \<and> is_shader_file ''hull.tesc''
   \<and> stage_flag_of ''hull.tesc'' = None"
  by (simp add: shader_compile_cmd_def spv_path_of_def stage_flag_of_def endswith_def
      strip_suffix_def is_shader_file_def shader_extensions_def)

text \<open>
  C9, amended. The shader compiler is invoked as
  \<open>glslc [stage flag] input -o output\<close>. A stage flag is passed exactly for the
  extensions \<open>.comp\<close>, \<open>.vert\<close>, \<open>.frag\<close> and \<open>.geom\<close> (compute, vertex, fragment,
  geometry); \<open>.glsl\<close>, \<open>.tesc\<close> and \<open>.tese\<close> files are compiled without one. The
  output path is the input path with \<open>.spv\<close> appended, except for a \<open>.glsl\<close> file,
  whose extension is replaced by \<open>.spv\<close>.
\<close>

theorem shader_invocation_shape:
  "shader_compile_cmd g (stem @ ''.vert'')
     = [g, ''-fshader-stage=vertex'', stem @ ''.vert'', ''-o'', stem @ ''.vert'' @ ''.spv'']
   \<and> shader_compile_cmd g (stem @ ''.frag'')
     = [g, ''-fshader-stage=fragment'', stem @ ''.frag'', ''-o'', stem @ ''.frag'' @ ''.spv'']
   \<and> shader_compile_cmd g (stem @ ''.comp'')
     = [g, ''-fshader-stage=compute'', stem @ ''.comp'', ''-o'', stem @ ''.comp'' @ ''.spv'']
   \<and> shader_compile_cmd g (stem @ ''.geom'')
     = [g, ''-fshader-stage=geometry'', stem @ ''.geom'', ''-o'', stem @ ''.geom'' @ ''.spv'']
   \<and> shader_compile_cmd g (stem @ ''.tesc'')
     = [g, stem @ ''.tesc'', ''-o'', stem @ ''.tesc'' @ ''.spv'']
   \<and> shader_compile_cmd g (stem @ ''.tese'')
     = [g, stem @ ''.tese'', ''-o'', stem @ ''.tese'' @ ''.spv'']
   \<and> shader_compile_cmd g (stem @ ''.glsl'')
     = [g, stem @ ''.glsl'', ''-o'', stem @ ''.spv'']
   \<and> (\<not> endswith p ''.glsl'' \<longrightarrow> spv_path_of p = p @ ''.spv'')
   \<and> (stage_flag_of p \<noteq> None \<longleftrightarrow>
        endswith p ''.comp'' \<or> endswith p ''.vert'' \<or> endswith p ''.frag''
        \<or> endswith p ''.geom'')"
proof -
  have no: "\<And>ext ext'. length ext = length ext' \<Longrightarrow> ext \<noteq> ext'
              \<Longrightarrow> endswith (stem @ ext) ext' = False"
    by (simp add: endswith_other)
  have glsl: "strip_suffix 5 (stem @ ''.glsl'') = stem"
    by (simp add: strip_suffix_def)
  have a: "\<not> endswith p ''.glsl'' \<longrightarrow> spv_path_of p = p @ ''.spv''"
    by (simp add: spv_path_of_def)
  have b: "stage_flag_of p \<noteq> None \<longleftrightarrow>
        endswith p ''.comp'' \<or> endswith p ''.vert'' \<or> endswith p ''.frag''
        \<or> endswith p ''.geom''"
    by (simp add: stage_flag_of_def)
  show ?thesis
    using a b
    by (simp add: shader_compile_cmd_def spv_path_of_def stage_flag_of_def no glsl)
qed

theorem shader_invocation_shape_witness:
  "shader_compile_cmd ''glslc'' ''a/tri.vert''
     = [''glslc'', ''-fshader-stage=vertex'', ''a/tri.vert'', ''-o'', ''a/tri.vert.spv'']
   \<and> shader_compile_cmd ''glslc'' ''a/tri.glsl'' = [''glslc'', ''a/tri.glsl'', ''-o'', ''a/tri.spv'']
   \<and> \<not> endswith ''a/tri.tese'' ''.glsl''
   \<and> spv_path_of ''a/tri.tese'' = ''a/tri.tese.spv''
   \<and> stage_flag_of ''a/tri.tese'' = None"
proof -
  have h: "\<not> endswith ''a/tri.tese'' ''.glsl''"
    by (simp add: endswith_def)
  have n: "\<not> (endswith ''a/tri.tese'' ''.comp'' \<or> endswith ''a/tri.tese'' ''.vert''
             \<or> endswith ''a/tri.tese'' ''.frag'' \<or> endswith ''a/tri.tese'' ''.geom'')"
    by (simp add: endswith_def)
  from shader_invocation_shape [of "''glslc''" "''a/tri''" "''a/tri.tese''"] h n
  show ?thesis by simp
qed

section \<open>Properties: external tools\<close>

lemma digit_char_plain: "k < 10 \<Longrightarrow> \<not> is_linebreak (digit_char k)"
proof -
  assume "k < 10"
  then have "k \<in> {0,1,2,3,4,5,6,7,8,9}" by auto
  then show ?thesis
    by (auto simp: digit_char_def is_linebreak_def)
qed

lemma str_nat_plain: "\<forall>c \<in> set (str_nat n). \<not> is_linebreak c"
proof (induction n rule: str_nat.induct)
  case (1 n)
  show ?case
  proof (cases "n < 10")
    case True
    then show ?thesis by (subst str_nat.simps) (simp add: digit_char_plain)
  next
    case False
    have m: "n mod 10 < 10" by simp
    from False 1 m show ?thesis
      by (subst str_nat.simps) (simp add: digit_char_plain)
  qed
qed

lemma str_int_plain: "\<forall>c \<in> set (str_int i). \<not> is_linebreak c"
  using str_nat_plain by (simp add: str_int_def is_linebreak_def)

lemma splitlines_empty: "splitlines [] = []"
  by (simp add: splitlines_def)

text \<open>
  C8. \<open>_run_step\<close> returns \<open>True\<close> exactly when the process ran and exited with code 0.
  On a nonzero exit code, and when the executable is missing, no exception escapes: the
  result is \<open>False\<close>, the status is one line (\<open>label failed: code\<close>, or
  \<open>label failed: cmd not found\<close>), and the log receives the lines of the captured
  stdout followed by stderr (for a missing executable there is no output, and the log
  receives the line \<open>label: command not found\<close>).
\<close>

theorem run_step_failure_semantics:
  "((\<exists>e'. run_step outcome label cmd capture_output e = Inr (True, e'))
      \<longleftrightarrow> (\<exists>out err. outcome = Completed 0 out err))
   \<and> (returncode \<noteq> 0 \<longrightarrow>
        run_step (Completed returncode stdout stderr) label cmd capture_output e
          = Inr (False, e\<lparr>status := label @ '' failed: '' @ str_int returncode,
                          log_lines := log_lines e @ splitlines (or_empty stdout @ or_empty stderr)\<rparr>))
   \<and> run_step FileNotFoundError label cmd capture_output e
          = Inr (False, e\<lparr>status := label @ '' failed: cmd not found'',
                          log_lines := log_lines e @ [label @ '': command not found'']\<rparr>)
   \<and> ((\<forall>c \<in> set label. \<not> is_linebreak c) \<longrightarrow>
        (\<forall>c \<in> set (label @ '' failed: '' @ str_int returncode). \<not> is_linebreak c)
        \<and> (\<forall>c \<in> set (label @ '' failed: cmd not found''). \<not> is_linebreak c))"
proof -
  have a: "(\<exists>e'. run_step outcome label cmd capture_output e = Inr (True, e'))
      \<longleftrightarrow> (\<exists>out err. outcome = Completed 0 out err)"
    by (cases outcome) (auto simp: run_step_def Let_def)
  have b: "returncode \<noteq> 0 \<longrightarrow>
        run_step (Completed returncode stdout stderr) label cmd capture_output e
          = Inr (False, e\<lparr>status := label @ '' failed: '' @ str_int returncode,
                          log_lines := log_lines e @ splitlines (or_empty stdout @ or_empty stderr)\<rparr>)"
    by (simp add: run_step_def Let_def splitlines_empty)
  have c: "run_step FileNotFoundError label cmd capture_output e
          = Inr (False, e\<lparr>status := label @ '' failed: cmd not found'',
                          log_lines := log_lines e @ [label @ '': command not found'']\<rparr>)"
    by (simp add: run_step_def)
  have d: "(\<forall>c \<in> set label. \<not> is_linebreak c) \<longrightarrow>
        (\<forall>c \<in> set (label @ '' failed: '' @ str_int returncode). \<not> is_linebreak c)
        \<and> (\<forall>c \<in> set (label @ '' failed: cmd not found''). \<not> is_linebreak c)"
    using str_int_plain [of returncode] by (auto simp: is_linebreak_def)
  from a b c d show ?thesis by blast
qed

theorem run_step_failure_semantics_witness:
  "run_step (Completed 2 (Some (''a.cpp: error'' @ [CHR 0x0A] @ ''1 error'' @ [CHR 0x0A])) (Some []))
       ''Build'' [''g++'', ''a.cpp''] True blank_editor
     = Inr (False, blank_editor\<lparr>status := ''Build failed: 2'',
                                  log_lines := [''a.cpp: error'', ''1 error'']\<rparr>)
   \<and> run_step FileNotFoundError ''Build'' [''g++'', ''a.cpp''] True blank_editor
     = Inr (False, blank_editor\<lparr>status := ''Build failed: cmd not found'',
                                  log_lines := [''Build: command not found'']\<rparr>)
   \<and> (\<exists>e'. run_step (Completed 0 (Some []) (Some [])) ''Build'' [''g++'', ''a.cpp''] True blank_editor
              = Inr (True, e'))
   \<and> list_all (\<lambda>c. \<not> is_linebreak c) ''Build''
   \<and> list_all (\<lambda>c. \<not> is_linebreak c) ''Build failed: 2''
   \<and> list_all (\<lambda>c. \<not> is_linebreak c) ''Build failed: cmd not found''"
proof -
  have ne: "(2::int) \<noteq> 0" by simp
  have s2: "str_int 2 = ''2''"
    by (simp add: str_int_def str_nat.simps digit_char_def)
  have sp: "splitlines (or_empty (Some (''a.cpp: error'' @ [CHR 0x0A] @ ''1 error'' @ [CHR 0x0A]))
              @ or_empty (Some [])) = [''a.cpp: error'', ''1 error'']"
    by (simp add: splitlines_def or_empty_def is_linebreak_def)
  have lg: "log_lines blank_editor = []"
    by (simp add: blank_editor_def)
  have ex: "\<exists>out err. Completed 0 (Some []) (Some []) = Completed 0 out err"
    by blast
  have lb: "\<forall>c \<in> set ''Build''. \<not> is_linebreak c"
    by (simp add: is_linebreak_def)
  note t1 = run_step_failure_semantics [of "Completed 0 (Some []) (Some [])" "''Build''"
      "[''g++'', ''a.cpp'']" True blank_editor 2
      "Some (''a.cpp: error'' @ [CHR 0x0A] @ ''1 error'' @ [CHR 0x0A])" "Some []"]
  from t1 ne ex have a: "\<exists>e'. run_step (Completed 0 (Some []) (Some [])) ''Build'' [''g++'', ''a.cpp''] True blank_editor
              = Inr (True, e')" by blast
  from t1 lb s2 have one: "list_all (\<lambda>c. \<not> is_linebreak c) ''Build failed: 2''
      \<and> list_all (\<lambda>c. \<not> is_linebreak c) ''Build failed: cmd not found''"
    unfolding list_all_iff by simp
  from lb have lb': "list_all (\<lambda>c. \<not> is_linebreak c) ''Build''"
    unfolding list_all_iff .
  from t1 ne s2 sp lg a one lb' show ?thesis by simp
qed

section \<open>Properties: auto-hotload triggers\<close>

lemma endswith_last: "endswith s suf \<Longrightarrow> suf \<noteq> [] \<Longrightarrow> last s = last suf"
  unfolding endswith_def
  by (metis last_drop length_greater_0_conv diff_less order_less_le_trans)

lemma hd_not_dll:
  "endswith p ''.hd'' \<Longrightarrow> \<not> (endswith p ''.dll'' \<or> endswith p ''.dll.new'')"
proof
  assume h: "endswith p ''.hd''" and d: "endswith p ''.dll'' \<or> endswith p ''.dll.new''"
  from h have "last p = CHR ''d''" by (drule_tac endswith_last) simp_all
  moreover from d have "last p = CHR ''l'' \<or> last p = CHR ''w''"
    by (auto dest!: endswith_last)
  ultimately show False by auto
qed

lemma on_modified_suppressed:
  "building e \<or> just_built e \<Longrightarrow> on_modified abspath fs now ev (h, e) = (h, e)"
  by auto

lemma save_suppressed:
  "building e \<or> just_built e \<Longrightarrow> save io now (fs, e) = Inr (fs', e') \<Longrightarrow>
     hotload_threads e' = hotload_threads e \<and> last_hotload_time e' = last_hotload_time e
     \<and> building e' = building e \<and> just_built e' = just_built e"
  by (cases io) (auto simp: Let_def)

lemma handle_event_suppressed:
  assumes "building (editor_of s) \<or> just_built (editor_of s)"
      and "handle_event abspath ev s = Inr s'"
  shows "hotload_threads (editor_of s') = hotload_threads (editor_of s)
       \<and> last_hotload_time (editor_of s') = last_hotload_time (editor_of s)
       \<and> building (editor_of s') = building (editor_of s)
       \<and> just_built (editor_of s') = just_built (editor_of s)"
proof (cases ev)
  case (Save io now)
  with assms(2) obtain fs' e' where
      sv: "save io now (files_of s, editor_of s) = Inr (fs', e')"
      and s': "s' = s\<lparr>files_of := fs', editor_of := e'\<rparr>"
    by (auto split: sum.splits)
  from save_suppressed [OF assms(1) sv] s' show ?thesis by simp
next
  case (Modified event now)
  with assms show ?thesis
    by (auto simp: on_modified_suppressed simp del: on_modified.simps)
qed

text \<open>
  C6. While \<open>_building\<close> or \<open>_just_built\<close> is set, no run of saves and watcher
  notifications, however long, starts a hotload: the list of started
  \<open>delayed_hotload\<close> threads and \<open>last_hotload_time\<close> are unchanged.
\<close>

theorem suppression_invariant:
  assumes "building (editor_of s) \<or> just_built (editor_of s)"
  shows "hotload_threads (editor_of (fst (run_events abspath evs s))) = hotload_threads (editor_of s)
       \<and> last_hotload_time (editor_of (fst (run_events abspath evs s))) = last_hotload_time (editor_of s)"
  using assms
proof (induction evs arbitrary: s)
  case Nil
  then show ?case by simp
next
  case (Cons ev evs)
  show ?case
  proof (cases "handle_event abspath ev s")
    case (Inl exn)
    then show ?thesis by simp
  next
    case (Inr s')
    from handle_event_suppressed [OF Cons.prems Inr]
    have k: "hotload_threads (editor_of s') = hotload_threads (editor_of s)"
        "last_hotload_time (editor_of s') = last_hotload_time (editor_of s)"
        "building (editor_of s') \<or> just_built (editor_of s')"
      using Cons.prems by auto
    from Cons.IH [OF k(3)] k(1,2) Inr show ?thesis by simp
  qed
qed

theorem suppression_invariant_witness:
  "building (editor_of (example_session\<lparr>editor_of := (editor_of example_session)\<lparr>building := True\<rparr>\<rparr>))
   \<and> hotload_threads (editor_of (fst (run_events id
        [Modified example_event 100, Save None 101, Modified example_event 105]
        (example_session\<lparr>editor_of := (editor_of example_session)\<lparr>building := True\<rparr>\<rparr>))))
      = []"
proof -
  let ?s = "example_session\<lparr>editor_of := (editor_of example_session)\<lparr>building := True\<rparr>\<rparr>"
  have b: "building (editor_of ?s) \<or> just_built (editor_of ?s)" by simp
  from suppression_invariant [OF b, of id
      "[Modified example_event 100, Save None 101, Modified example_event 105]"]
  show ?thesis
    by (simp add: example_session_def blank_editor_def)
qed

lemma on_modified_inside_interval:
  assumes "now - last_hotload_time e \<le> 2"
      and "on_modified abspath fs now ev (h, e) = (h', e')"
  shows "hotload_threads e' = hotload_threads e \<and> last_hotload_time e' = last_hotload_time e"
  using assms by (auto simp: Let_def split: if_splits)

lemma save_inside_interval:
  assumes "now - last_hotload_time e \<le> 2"
      and "save io now (fs, e) = Inr (fs', e')"
  shows "hotload_threads e' = hotload_threads e \<and> last_hotload_time e' = last_hotload_time e"
  using assms by (cases io) (auto simp: Let_def split: if_splits)

lemma handle_event_inside_interval:
  assumes "event_time ev - last_hotload_time (editor_of s) \<le> 2"
      and "handle_event abspath ev s = Inr s'"
  shows "hotload_threads (editor_of s') = hotload_threads (editor_of s)
       \<and> last_hotload_time (editor_of s') = last_hotload_time (editor_of s)"
proof (cases ev)
  case (Save io now)
  with assms(2) obtain fs' e' where
      sv: "save io now (files_of s, editor_of s) = Inr (fs', e')"
      and s': "s' = s\<lparr>files_of := fs', editor_of := e'\<rparr>"
    by (auto split: sum.splits)
  from assms(1) Save have "now - last_hotload_time (editor_of s) \<le> 2" by simp
  from save_inside_interval [OF this sv] s' show ?thesis by simp
next
  case (Modified event now)
  with assms(2) obtain h' e' where
      om: "on_modified abspath (files_of s) now event (handler_of s, editor_of s) = (h', e')"
      and s': "s' = s\<lparr>handler_of := h', editor_of := e'\<rparr>"
    by (auto split: prod.splits simp del: on_modified.simps)
  from assms(1) Modified have "now - last_hotload_time (editor_of s) \<le> 2" by simp
  from on_modified_inside_interval [OF this om] s' show ?thesis by simp
qed

lemma run_events_inside_interval:
  assumes "\<forall>ev \<in> set evs. event_time ev - last_hotload_time (editor_of s) \<le> 2"
  shows "hotload_threads (editor_of (fst (run_events abspath evs s))) = hotload_threads (editor_of s)
       \<and> last_hotload_time (editor_of (fst (run_events abspath evs s))) = last_hotload_time (editor_of s)"
  using assms
proof (induction evs arbitrary: s)
  case Nil
  then show ?case by simp
next
  case (Cons ev evs)
  show ?case
  proof (cases "handle_event abspath ev s")
    case (Inl exn)
    then show ?thesis by simp
  next
    case (Inr s')
    from Cons.prems have "event_time ev - last_hotload_time (editor_of s) \<le> 2" by simp
    from handle_event_inside_interval [OF this Inr]
    have k: "hotload_threads (editor_of s') = hotload_threads (editor_of s)"
        "last_hotload_time (editor_of s') = last_hotload_time (editor_of s)" by auto
    with Cons.prems have "\<forall>ev \<in> set evs. event_time ev - last_hotload_time (editor_of s') \<le> 2"
      by simp
    from Cons.IH [OF this] k Inr show ?thesis by simp
  qed
qed

lemma on_modified_fires:
  assumes "\<not> is_directory event" "endswith (src_path event) ''.hd''"
      and "abspath (src_path event) = abspath (original_hd_path e)"
      and "\<not> building e" "\<not> just_built e"
      and "t0 - last_modified h > 1" "t0 - last_hotload_time e > 2"
      and "auto_hotload_enabled e" "has_hot_systems fs e"
  shows "on_modified abspath fs t0 event (h, e)
           = (h\<lparr>last_modified := t0\<rparr>,
              e\<lparr>last_hotload_time := t0, hotload_threads := hotload_threads e @ [t0]\<rparr>)"
  using assms hd_not_dll [OF assms(2)] by (simp add: Let_def)

text \<open>
  C7. Once a modification of the watched \<open>.hd\<close> file has triggered a hotload at time
  \<open>t0\<close> (the editor idle: not building, auto-hotload on, hot systems present, more than
  1 s after the last handled notification and more than 2 s after the last hotload), any
  number \<open>N \<ge> 0\<close> of further events arriving within 2.0 s of \<open>last_hotload_time = t0\<close>
  is ignored: exactly one rebuild fires for the whole burst.
\<close>

theorem debounce_exactly_once:
  assumes "\<not> is_directory event" "endswith (src_path event) ''.hd''"
      and "abspath (src_path event) = abspath (original_hd_path (editor_of s))"
      and "\<not> building (editor_of s)" "\<not> just_built (editor_of s)"
      and "t0 - last_modified (handler_of s) > 1"
      and "t0 - last_hotload_time (editor_of s) > 2"
      and "auto_hotload_enabled (editor_of s)" "has_hot_systems (files_of s) (editor_of s)"
      and "\<forall>ev \<in> set evs. event_time ev - t0 \<le> 2"
  shows "hotload_threads (editor_of (fst (run_events abspath (Modified event t0 # evs) s)))
           = hotload_threads (editor_of s) @ [t0]"
proof -
  let ?s1 = "s\<lparr>handler_of := (handler_of s)\<lparr>last_modified := t0\<rparr>,
               editor_of := (editor_of s)\<lparr>last_hotload_time := t0,
                 hotload_threads := hotload_threads (editor_of s) @ [t0]\<rparr>\<rparr>"
  have step: "handle_event abspath (Modified event t0) s = Inr ?s1"
    using on_modified_fires [OF assms(1-9)] by (simp del: on_modified.simps)
  have "\<forall>ev \<in> set evs. event_time ev - last_hotload_time (editor_of ?s1) \<le> 2"
    using assms(10) by simp
  from run_events_inside_interval [OF this, of abspath] step show ?thesis
    by simp
qed

theorem debounce_exactly_once_witness:
  "hotload_threads (editor_of (fst (run_events id
       [Modified example_event 100, Modified example_event (1003 / 10),
        Modified example_event (203 / 2), Save None 102] example_session)))
     = [100]
   \<and> hotload_threads (editor_of example_session) = []"
proof -
  have evs: "\<forall>ev \<in> set [Modified example_event (1003 / 10), Modified example_event (203 / 2),
               Save None 102]. event_time ev - 100 \<le> 2"
    by simp
  have hot: "has_hot_systems (files_of example_session) (editor_of example_session)"
    by (simp add: has_hot_systems_def example_session_def blank_editor_def endswith_def)
  have "hotload_threads (editor_of (fst (run_events id
       (Modified example_event 100 # [Modified example_event (1003 / 10),
        Modified example_event (203 / 2), Save None 102]) example_session)))
     = hotload_threads (editor_of example_session) @ [100]"
    by (rule debounce_exactly_once [OF _ _ _ _ _ _ _ _ hot evs])
       (simp_all add: example_session_def example_event_def blank_editor_def endswith_def)
  then show ?thesis
    by (simp add: example_session_def blank_editor_def)
qed

section \<open>Properties: the DLL swap\<close>

lemma log_msg_fields [simp]:
  "disk (log_msg m st) = disk st" "trace (log_msg m st) = trace st"
  "replaced (log_msg m st) = replaced st" "attempts (log_msg m st) = attempts st"
  "slept (log_msg m st) = slept st" "any_replaced (log_msg m st) = any_replaced st"
  by (simp_all add: log_msg_def)

lemma sleep_fields [simp]:
  "disk (sleep w st) = disk st" "trace (sleep w st) = trace st"
  "replaced (sleep w st) = replaced st" "attempts (sleep w st) = attempts st"
  "slept (sleep w st) = slept st @ [w]" "any_replaced (sleep w st) = any_replaced st"
  by (simp_all add: sleep_def)

lemma fs_write_fields [simp]:
  "disk (fs_write op f st) = f" "trace (fs_write op f st) = trace st @ [(op, disk st, f)]"
  "replaced (fs_write op f st) = replaced st" "attempts (fs_write op f st) = attempts st"
  "slept (fs_write op f st) = slept st" "any_replaced (fs_write op f st) = any_replaced st"
  by (simp_all add: fs_write_def)

lemma try_remove_Some:
  "try_remove refused p st = Some st' \<longleftrightarrow>
     \<not> refused \<and> disk st p \<noteq> None \<and> st' = fs_write (OpRemove p) ((disk st)(p := None)) st"
  by (auto simp: try_remove_def os_remove_def)

lemma try_remove_None:
  "try_remove refused p st = None \<longleftrightarrow> refused \<or> disk st p = None"
  by (auto simp: try_remove_def os_remove_def)

lemma try_rename_Some:
  "try_rename refused src dst st = Some st' \<longleftrightarrow>
     \<not> refused \<and> disk st src \<noteq> None
     \<and> st' = fs_write (OpRename src dst) (((disk st)(src := None))(dst := disk st src)) st"
  by (auto simp: try_rename_def os_rename_def)

lemma try_rename_None:
  "try_rename refused src dst st = None \<longleftrightarrow> refused \<or> disk st src = None"
  by (auto simp: try_rename_def os_rename_def)

text \<open>The three paths of a DLL are different.\<close>

lemma path_join_inj:
  assumes "f \<noteq> []" "g \<noteq> []" "hd f = hd g" "f \<noteq> g"
  shows "path_join d f \<noteq> path_join d g"
  using assms by (auto simp: path_join_def)

lemma dll_names_distinct:
  "path_join d (x @ ''.dll'') \<noteq> path_join d (x @ ''.dll.new'')"
  "path_join d (x @ ''.dll'') \<noteq> path_join d (x @ ''.dll.old'')"
  "path_join d (x @ ''.dll.new'') \<noteq> path_join d (x @ ''.dll.old'')"
  by (rule path_join_inj; cases x; simp)+

lemma dll_paths_distinct:
  "dll_path (dll_paths_of d c) \<noteq> dll_new_path (dll_paths_of d c)"
  "dll_path (dll_paths_of d c) \<noteq> dll_old_path (dll_paths_of d c)"
  "dll_new_path (dll_paths_of d c) \<noteq> dll_old_path (dll_paths_of d c)"
  "dll_old_path (dll_paths_of d c) \<noteq> dll_path (dll_paths_of d c)"
  "dll_new_path (dll_paths_of d c) \<noteq> dll_path (dll_paths_of d c)"
  "dll_old_path (dll_paths_of d c) \<noteq> dll_new_path (dll_paths_of d c)"
  using dll_names_distinct [of d "remove_all ''_hot.dll.cpp'' (basename c)"]
  by (simp_all add: dll_paths_of_def Let_def)

lemma trace_chain_snoc:
  "trace_chain start (tr @ [(op, before, after)]) finish
     \<longleftrightarrow> trace_chain start tr before \<and> after = finish"
  by (induction start tr before rule: trace_chain.induct) auto

lemma trace_chain_append:
  "trace_chain start (tr @ tr') finish
     \<longleftrightarrow> (\<exists>mid. trace_chain start tr mid \<and> trace_chain mid tr' finish)"
  by (induction start tr finish rule: trace_chain.induct) auto

lemma trace_chain_snoc2:
  "trace_chain start (tr @ [(op, before, after), (op', before', after')]) finish
     \<longleftrightarrow> trace_chain start tr before \<and> after = before' \<and> after' = finish"
  by (auto simp: trace_chain_append)

text \<open>Every step of a run is well formed, and the steps form a chain to the current disk.\<close>

lemma retire_old_valid:
  assumes D: "distinct [dll_path ps, dll_new_path ps, dll_old_path ps]"
      and V: "list_all (valid_step ps) (trace st)" "trace_chain fs0 (trace st) (disk st)"
      and E: "path_exists (disk st) (dll_path ps)"
  shows "case retire_old env ps attempt st of
           Inl st1 \<Rightarrow> list_all (valid_step ps) (trace st1) \<and> trace_chain fs0 (trace st1) (disk st1)
         | Inr st1 \<Rightarrow> list_all (valid_step ps) (trace st1) \<and> trace_chain fs0 (trace st1) (disk st1)
                      \<and> disk st1 (dll_path ps) = None"
  using D V E
  by (auto simp: retire_old_def path_exists_def try_remove_Some try_remove_None
      try_rename_Some try_rename_None valid_step_def trace_chain_snoc trace_chain_snoc2
      split: option.splits sum.splits)

lemma cleanup_backup_valid:
  assumes V: "list_all (valid_step ps) (trace st)" "trace_chain fs0 (trace st) (disk st)"
  shows "list_all (valid_step ps) (trace (cleanup_backup env ps attempt st))
       \<and> trace_chain fs0 (trace (cleanup_backup env ps attempt st))
            (disk (cleanup_backup env ps attempt st))"
  using V
  by (auto simp: cleanup_backup_def path_exists_def try_remove_Some try_remove_None
      valid_step_def trace_chain_snoc split: option.splits)

lemma promote_new_valid:
  assumes D: "distinct [dll_path ps, dll_new_path ps, dll_old_path ps]"
      and V: "list_all (valid_step ps) (trace st)" "trace_chain fs0 (trace st) (disk st)"
      and E: "disk st (dll_path ps) = None"
  shows "list_all (valid_step ps) (trace (snd (promote_new env ps attempt st)))
       \<and> trace_chain fs0 (trace (snd (promote_new env ps attempt st)))
            (disk (snd (promote_new env ps attempt st)))"
proof (cases "path_exists (disk st) (dll_new_path ps)")
  case False
  with V show ?thesis by (simp add: promote_new_def)
next
  case True
  show ?thesis
  proof (cases "try_rename (rename_new_refused env attempt) (dll_new_path ps) (dll_path ps) st")
    case None
    with True V show ?thesis by (simp add: promote_new_def)
  next
    case (Some st1)
    then have st1: "st1 = fs_write (OpRename (dll_new_path ps) (dll_path ps))
        (((disk st)(dll_new_path ps := None))(dll_path ps := disk st (dll_new_path ps))) st"
      and ne: "disk st (dll_new_path ps) \<noteq> None"
      by (simp_all add: try_rename_Some)
    have V1: "list_all (valid_step ps) (trace st1)" "trace_chain fs0 (trace st1) (disk st1)"
      using V E ne by (simp_all add: st1 valid_step_def trace_chain_snoc)
    let ?st2 = "log_msg (RebuiltOk (dll_name ps)) (st1\<lparr>replaced := True, any_replaced := True\<rparr>)"
    have V2: "list_all (valid_step ps) (trace ?st2)" "trace_chain fs0 (trace ?st2) (disk ?st2)"
      using V1 by simp_all
    from cleanup_backup_valid [OF V2] V1 True Some show ?thesis
      by (simp add: promote_new_def)
  qed
qed

lemma still_locked_fields [simp]:
  "disk (snd (still_locked attempt st)) = disk st"
  "trace (snd (still_locked attempt st)) = trace st"
  "replaced (snd (still_locked attempt st)) = replaced st"
  "attempts (snd (still_locked attempt st)) = attempts st"
  by (simp_all add: still_locked_def Let_def)

lemma swap_attempt_valid:
  assumes D: "distinct [dll_path ps, dll_new_path ps, dll_old_path ps]"
      and V: "list_all (valid_step ps) (trace st)" "trace_chain fs0 (trace st) (disk st)"
  shows "list_all (valid_step ps) (trace (snd (swap_attempt env ps attempt st)))
       \<and> trace_chain fs0 (trace (snd (swap_attempt env ps attempt st)))
            (disk (snd (swap_attempt env ps attempt st)))"
proof -
  let ?st0 = "st\<lparr>attempts := Suc (attempts st)\<rparr>"
  have V0: "list_all (valid_step ps) (trace ?st0)" "trace_chain fs0 (trace ?st0) (disk ?st0)"
    using V by simp_all
  show ?thesis
  proof (cases "path_exists (disk ?st0) (dll_path ps)")
    case False
    then have "disk ?st0 (dll_path ps) = None" by (simp add: path_exists_def)
    from promote_new_valid [OF D V0 this] False show ?thesis
      by (simp add: swap_attempt_def Let_def)
  next
    case True
    show ?thesis
    proof (cases "retire_old env ps attempt ?st0")
      case (Inl st1)
      with retire_old_valid [OF D V0 True, of env attempt] True show ?thesis
        by (simp add: swap_attempt_def Let_def)
    next
      case (Inr st1)
      with retire_old_valid [OF D V0 True, of env attempt]
      have V1: "list_all (valid_step ps) (trace st1)" "trace_chain fs0 (trace st1) (disk st1)"
        and E1: "disk st1 (dll_path ps) = None" by simp_all
      from promote_new_valid [OF D V1 E1] True Inr show ?thesis
        by (simp add: swap_attempt_def Let_def)
    qed
  qed
qed

lemma swap_loop_valid:
  assumes D: "distinct [dll_path ps, dll_new_path ps, dll_old_path ps]"
      and V: "list_all (valid_step ps) (trace st)" "trace_chain fs0 (trace st) (disk st)"
  shows "list_all (valid_step ps) (trace (swap_loop env ps todo st))
       \<and> trace_chain fs0 (trace (swap_loop env ps todo st)) (disk (swap_loop env ps todo st))"
  using V
proof (induction todo arbitrary: st)
  case Nil
  then show ?case by simp
next
  case (Cons attempt rest)
  obtain ctl st' where r: "swap_attempt env ps attempt st = (ctl, st')"
    by (cases "swap_attempt env ps attempt st")
  from swap_attempt_valid [OF D Cons.prems, of env attempt] r
  have V': "list_all (valid_step ps) (trace st')" "trace_chain fs0 (trace st') (disk st')"
    by simp_all
  show ?case
  proof (cases ctl)
    case Continue
    with r Cons.IH [OF V'] show ?thesis by simp
  next
    case Break
    with r V' show ?thesis by simp
  qed
qed

lemma replace_dll_valid:
  assumes D: "distinct [dll_path ps, dll_new_path ps, dll_old_path ps]"
  shows "list_all (valid_step ps) (trace (replace_dll env ps fs0 log0 any0))
       \<and> trace_chain fs0 (trace (replace_dll env ps fs0 log0 any0))
            (disk (replace_dll env ps fs0 log0 any0))"
proof -
  have "list_all (valid_step ps) (trace (swap_start fs0 log0 any0))"
       "trace_chain fs0 (trace (swap_start fs0 log0 any0)) (disk (swap_start fs0 log0 any0))"
    by (simp_all add: swap_start_def)
  from swap_loop_valid [OF D this] show ?thesis
    by (simp add: replace_dll_def Let_def)
qed

text \<open>The phases of a swap: untouched, retired, committed.\<close>

lemma untouched_attempts [simp]:
  "untouched ps c n0 (st\<lparr>attempts := k\<rparr>) = untouched ps c n0 st"
  "retired ps c n0 (st\<lparr>attempts := k\<rparr>) = retired ps c n0 st"
  by (simp_all add: untouched_def retired_def was_retired_def was_promoted_def)

lemma retire_old_phase:
  assumes D: "distinct [dll_path ps, dll_new_path ps, dll_old_path ps]"
      and U: "untouched ps c n0 st"
  shows "case retire_old env ps attempt st of
           Inl st1 \<Rightarrow> untouched ps c n0 st1
         | Inr st1 \<Rightarrow> retired ps c n0 st1"
  using D U
  by (auto simp: retire_old_def path_exists_def try_remove_Some try_remove_None
      try_rename_Some try_rename_None untouched_def retired_def was_retired_def
      was_promoted_def list_all_iff list_ex_iff
      split: option.splits sum.splits)

lemma still_locked_phase:
  "untouched ps c n0 st \<Longrightarrow> untouched ps c n0 (snd (still_locked attempt st))"
  by (simp add: untouched_def)

lemma promote_new_phase:
  assumes D: "distinct [dll_path ps, dll_new_path ps, dll_old_path ps]"
      and R: "retired ps c n0 st"
  shows "case promote_new env ps attempt st of
           (Continue, st') \<Rightarrow> retired ps c n0 st'
         | (Break, st') \<Rightarrow> retired ps c n0 st' \<or> committed ps st'"
  using D R
  by (auto simp: promote_new_def cleanup_backup_def path_exists_def try_remove_Some
      try_remove_None try_rename_Some try_rename_None retired_def committed_def
      was_retired_def was_promoted_def list_ex_iff
      split: option.splits)

lemma swap_attempt_phase:
  assumes D: "distinct [dll_path ps, dll_new_path ps, dll_old_path ps]"
      and J: "untouched ps c n0 st \<or> retired ps c n0 st"
  shows "case swap_attempt env ps attempt st of
           (Continue, st') \<Rightarrow> untouched ps c n0 st' \<or> retired ps c n0 st'
         | (Break, st') \<Rightarrow> untouched ps c n0 st' \<or> retired ps c n0 st' \<or> committed ps st'"
proof -
  let ?st0 = "st\<lparr>attempts := Suc (attempts st)\<rparr>"
  from J show ?thesis
  proof
    assume U: "untouched ps c n0 st"
    then have E: "path_exists (disk ?st0) (dll_path ps)"
      by (simp add: untouched_def path_exists_def)
    from U have U0: "untouched ps c n0 ?st0" by simp
    show ?thesis
    proof (cases "retire_old env ps attempt ?st0")
      case (Inl st1)
      with retire_old_phase [OF D U0, of env attempt] have "untouched ps c n0 st1" by simp
      from still_locked_phase [OF this, of attempt] E Inl show ?thesis
        by (cases "still_locked attempt st1") (auto simp: swap_attempt_def Let_def split: loop_ctl.splits)
    next
      case (Inr st1)
      with retire_old_phase [OF D U0, of env attempt] have "retired ps c n0 st1" by simp
      from promote_new_phase [OF D this, of env attempt] E Inr show ?thesis
        by (auto simp: swap_attempt_def Let_def split: prod.splits loop_ctl.splits)
    qed
  next
    assume R: "retired ps c n0 st"
    then have E: "\<not> path_exists (disk ?st0) (dll_path ps)"
      by (simp add: retired_def path_exists_def)
    from R have "retired ps c n0 ?st0" by simp
    from promote_new_phase [OF D this, of env attempt] E show ?thesis
      by (auto simp: swap_attempt_def Let_def split: prod.splits loop_ctl.splits)
  qed
qed

lemma swap_loop_phase:
  assumes D: "distinct [dll_path ps, dll_new_path ps, dll_old_path ps]"
      and J: "untouched ps c n0 st \<or> retired ps c n0 st"
  shows "untouched ps c n0 (swap_loop env ps todo st)
       \<or> retired ps c n0 (swap_loop env ps todo st)
       \<or> committed ps (swap_loop env ps todo st)"
  using J
proof (induction todo arbitrary: st)
  case Nil
  then show ?case by auto
next
  case (Cons attempt rest)
  obtain ctl st' where r: "swap_attempt env ps attempt st = (ctl, st')"
    by (cases "swap_attempt env ps attempt st")
  show ?case
  proof (cases ctl)
    case Continue
    with swap_attempt_phase [OF D Cons.prems, of env attempt] r
    have "untouched ps c n0 st' \<or> retired ps c n0 st'" by simp
    from Cons.IH [OF this] r Continue show ?thesis by simp
  next
    case Break
    with swap_attempt_phase [OF D Cons.prems, of env attempt] r show ?thesis by simp
  qed
qed

lemma phase_log [simp]:
  "untouched ps c n0 (log_msg m st) = untouched ps c n0 st"
  "retired ps c n0 (log_msg m st) = retired ps c n0 st"
  "committed ps (log_msg m st) = committed ps st"
  by (simp_all add: untouched_def retired_def committed_def was_retired_def was_promoted_def)

lemma replace_dll_phase:
  assumes D: "distinct [dll_path ps, dll_new_path ps, dll_old_path ps]"
      and "start (dll_path ps) = Some c"
  shows "untouched ps c (start (dll_new_path ps)) (replace_dll env ps start logs anyr)
       \<or> retired ps c (start (dll_new_path ps)) (replace_dll env ps start logs anyr)
       \<or> committed ps (replace_dll env ps start logs anyr)"
proof -
  have "untouched ps c (start (dll_new_path ps)) (swap_start start logs anyr)"
    using assms(2) by (simp add: untouched_def swap_start_def)
  then have "untouched ps c (start (dll_new_path ps)) (swap_start start logs anyr)
      \<or> retired ps c (start (dll_new_path ps)) (swap_start start logs anyr)" ..
  from swap_loop_phase [OF D this, of env "[0..<max_retries]"] show ?thesis
    by (simp add: replace_dll_def Let_def)
qed

lemma phases_exclusive:
  "untouched ps c n0 st \<Longrightarrow> \<not> was_retired ps st \<and> \<not> replaced st"
  "retired ps c n0 st \<Longrightarrow> was_retired ps st \<and> \<not> was_promoted ps st \<and> \<not> replaced st"
  "committed ps st \<Longrightarrow> was_retired ps st \<and> was_promoted ps st \<and> replaced st"
  by (auto simp: untouched_def retired_def committed_def was_retired_def list_all_iff list_ex_iff)

lemma swap_attempt_from_retired:
  assumes D: "distinct [dll_path ps, dll_new_path ps, dll_old_path ps]"
      and R: "retired ps c n0 st"
  shows "retired ps c n0 (snd (swap_attempt env ps attempt st))
       \<or> committed ps (snd (swap_attempt env ps attempt st))"
proof -
  let ?st0 = "st\<lparr>attempts := Suc (attempts st)\<rparr>"
  from R have E: "\<not> path_exists (disk ?st0) (dll_path ps)"
    by (simp add: retired_def path_exists_def)
  from R have "retired ps c n0 ?st0" by simp
  from promote_new_phase [OF D this, of env attempt] E show ?thesis
    by (auto simp: swap_attempt_def Let_def split: prod.splits loop_ctl.splits)
qed

text \<open>Once the loaded DLL has been retired, the trace keeps saying so.\<close>

lemma was_retired_fields [simp]:
  "was_retired ps (log_msg m st) = was_retired ps st"
  "was_retired ps (sleep w st) = was_retired ps st"
  "was_retired ps (st\<lparr>attempts := k\<rparr>) = was_retired ps st"
  "was_retired ps (st\<lparr>replaced := b, any_replaced := b'\<rparr>) = was_retired ps st"
  "was_retired ps (snd (still_locked attempt st)) = was_retired ps st"
  "was_retired ps st \<Longrightarrow> was_retired ps (fs_write op f st)"
  by (simp_all add: was_retired_def)

lemma retire_old_mono:
  "was_retired ps st \<Longrightarrow>
     (case retire_old env ps attempt st of
        Inl st1 \<Rightarrow> was_retired ps st1 | Inr st1 \<Rightarrow> was_retired ps st1)"
  by (auto simp: retire_old_def try_remove_Some try_rename_Some split: option.splits)

lemma cleanup_backup_mono:
  "was_retired ps st \<Longrightarrow> was_retired ps (cleanup_backup env ps attempt st)"
  by (auto simp: cleanup_backup_def try_remove_Some split: option.splits)

lemma promote_new_mono:
  "was_retired ps st \<Longrightarrow> was_retired ps (snd (promote_new env ps attempt st))"
  by (auto simp: promote_new_def try_rename_Some cleanup_backup_mono split: option.splits)

lemma swap_attempt_mono:
  assumes "was_retired ps st"
  shows "was_retired ps (snd (swap_attempt env ps attempt st))"
proof -
  let ?st0 = "st\<lparr>attempts := Suc (attempts st)\<rparr>"
  from assms have w0: "was_retired ps ?st0" by simp
  show ?thesis
  proof (cases "path_exists (disk ?st0) (dll_path ps)")
    case False
    with promote_new_mono [OF w0, of env attempt] show ?thesis
      by (simp add: swap_attempt_def Let_def)
  next
    case True
    show ?thesis
    proof (cases "retire_old env ps attempt ?st0")
      case (Inl st1)
      with retire_old_mono [OF w0, of env attempt] True show ?thesis
        by (simp add: swap_attempt_def Let_def)
    next
      case (Inr st1)
      with retire_old_mono [OF w0, of env attempt] have "was_retired ps st1" by simp
      from promote_new_mono [OF this, of env attempt] True Inr show ?thesis
        by (simp add: swap_attempt_def Let_def)
    qed
  qed
qed

lemma swap_loop_mono:
  "was_retired ps st \<Longrightarrow> was_retired ps (swap_loop env ps todo st)"
proof (induction todo arbitrary: st)
  case Nil
  then show ?case by simp
next
  case (Cons attempt rest)
  obtain ctl st' where r: "swap_attempt env ps attempt st = (ctl, st')"
    by (cases "swap_attempt env ps attempt st")
  with swap_attempt_mono [OF Cons.prems, of env attempt] have "was_retired ps st'" by simp
  with r Cons.IH [of st'] show ?case
    by (cases ctl) simp_all
qed

lemma swap_loop_from_retired:
  assumes R: "retired ps c n0 st \<or> committed ps st"
  shows "\<not> untouched ps c n0 (swap_loop env ps todo st)"
proof -
  from R have "was_retired ps st" by (auto dest: phases_exclusive)
  from swap_loop_mono [OF this] show ?thesis by (auto dest: phases_exclusive)
qed

text \<open>An attempt that leaves the loaded DLL untouched ends in the lock handler.\<close>

lemma swap_attempt_stays_untouched:
  assumes D: "distinct [dll_path ps, dll_new_path ps, dll_old_path ps]"
      and U: "untouched ps c n0 st"
      and r: "swap_attempt env ps attempt st = (ctl, st')"
      and U': "untouched ps c n0 st'"
  shows "attempts st' = Suc (attempts st)
       \<and> (ctl = Continue \<longleftrightarrow> attempt < max_retries - 1)
       \<and> (attempt < max_retries - 1 \<longrightarrow>
            slept st' = slept st @ [1 + of_nat attempt * (2 / 10)])"
proof -
  let ?st0 = "st\<lparr>attempts := Suc (attempts st)\<rparr>"
  from U have E: "path_exists (disk ?st0) (dll_path ps)"
    by (simp add: untouched_def path_exists_def)
  from U have U0: "untouched ps c n0 ?st0" by simp
  show ?thesis
  proof (cases "retire_old env ps attempt ?st0")
    case (Inl st1)
    then have f: "attempts st1 = Suc (attempts st)" "slept st1 = slept st"
      by (auto simp: retire_old_def try_remove_Some try_rename_Some
          split: option.splits if_splits)
    from Inl E r have "still_locked attempt st1 = (ctl, st')"
      by (simp add: swap_attempt_def Let_def)
    with f show ?thesis
      by (auto simp: still_locked_def Let_def split: if_splits)
  next
    case (Inr st1)
    with retire_old_phase [OF D U0, of env attempt] have "retired ps c n0 st1" by simp
    from promote_new_phase [OF D this, of env attempt] E Inr r
    have "retired ps c n0 st' \<or> committed ps st'"
      by (auto simp: swap_attempt_def Let_def split: loop_ctl.splits)
    with U' show ?thesis by (auto dest: phases_exclusive)
  qed
qed

lemma swap_loop_untouched_attempts:
  assumes D: "distinct [dll_path ps, dll_new_path ps, dll_old_path ps]"
  shows "untouched ps c n0 st \<Longrightarrow> k \<le> max_retries - 1
       \<Longrightarrow> untouched ps c n0 (swap_loop env ps [k..<max_retries] st)
       \<Longrightarrow> attempts (swap_loop env ps [k..<max_retries] st) = attempts st + (max_retries - k)"
proof (induction "max_retries - k" arbitrary: k st)
  case 0
  then show ?case by (simp add: max_retries_def)
next
  case (Suc m)
  then have lt: "k < max_retries" by simp
  then have unf: "[k..<max_retries] = k # [Suc k..<max_retries]" by (simp add: upt_rec)
  obtain ctl st' where r: "swap_attempt env ps k st = (ctl, st')"
    by (cases "swap_attempt env ps k st")
  from swap_attempt_phase [OF D, of c n0 st env k] Suc.prems(1) r
  have ph: "untouched ps c n0 st' \<or> retired ps c n0 st' \<or> committed ps st'"
    by (cases ctl) auto
  have U': "untouched ps c n0 st'"
  proof (rule ccontr)
    assume n: "\<not> untouched ps c n0 st'"
    with ph have rc: "retired ps c n0 st' \<or> committed ps st'" by simp
    show False
    proof (cases ctl)
      case Continue
      with r unf Suc.prems(3) have "untouched ps c n0 (swap_loop env ps [Suc k..<max_retries] st')"
        by simp
      with swap_loop_from_retired [OF rc] show False by simp
    next
      case Break
      with r unf Suc.prems(3) n show False by simp
    qed
  qed
  note s = swap_attempt_stays_untouched [OF D Suc.prems(1) r U']
  show ?case
  proof (cases ctl)
    case Continue
    with s have k: "Suc k \<le> max_retries - 1" by simp
    from Suc.hyps(2) have m: "m = max_retries - Suc k" by simp
    from Continue r unf Suc.prems(3)
    have "untouched ps c n0 (swap_loop env ps [Suc k..<max_retries] st')" by simp
    from Suc.hyps(1) [OF m U' k this] s Continue r unf lt show ?thesis by simp
  next
    case Break
    with s have "k = max_retries - 1" using Suc.prems(2) by simp
    with Break s r unf show ?thesis by (simp add: max_retries_def)
  qed
qed

text \<open>The second rename, when it succeeds, commits.\<close>

lemma retire_old_replaced:
  "case retire_old env ps attempt st of
     Inl st1 \<Rightarrow> replaced st1 = replaced st \<and> attempts st1 = attempts st
   | Inr st1 \<Rightarrow> replaced st1 = replaced st \<and> attempts st1 = attempts st"
  by (auto simp: retire_old_def try_remove_Some try_rename_Some split: option.splits)

lemma cleanup_backup_fields:
  assumes "dll_old_path ps \<noteq> p"
  shows "disk (cleanup_backup env ps attempt st) p = disk st p"
    and "replaced (cleanup_backup env ps attempt st) = replaced st"
    and "attempts (cleanup_backup env ps attempt st) = attempts st"
    and "was_promoted ps st \<Longrightarrow> was_promoted ps (cleanup_backup env ps attempt st)"
  using assms
  by (auto simp: cleanup_backup_def try_remove_Some was_promoted_def split: option.splits)

lemma promote_new_commit:
  assumes D: "distinct [dll_path ps, dll_new_path ps, dll_old_path ps]"
      and N: "\<not> replaced st"
      and r: "promote_new env ps attempt st = (ctl, st')"
  shows "attempts st' = attempts st"
    and "replaced st' \<Longrightarrow> ctl = Break \<and> disk st' (dll_new_path ps) = None
           \<and> disk st' (dll_path ps) \<noteq> None \<and> was_promoted ps st'"
proof -
  from D have o: "dll_old_path ps \<noteq> dll_new_path ps" "dll_old_path ps \<noteq> dll_path ps"
    and nd: "dll_new_path ps \<noteq> dll_path ps" by auto
  show "attempts st' = attempts st"
    using r
    by (auto simp: promote_new_def try_rename_Some cleanup_backup_fields(3) [OF o(1)]
        split: option.splits if_splits)
  assume rep: "replaced st'"
  show "ctl = Break \<and> disk st' (dll_new_path ps) = None
           \<and> disk st' (dll_path ps) \<noteq> None \<and> was_promoted ps st'"
  proof (cases "path_exists (disk st) (dll_new_path ps)")
    case False
    with r N rep show ?thesis by (auto simp: promote_new_def)
  next
    case True
    show ?thesis
    proof (cases "try_rename (rename_new_refused env attempt) (dll_new_path ps) (dll_path ps) st")
      case None
      with True r N rep show ?thesis by (auto simp: promote_new_def split: if_splits)
    next
      case (Some st1)
      then have st1: "st1 = fs_write (OpRename (dll_new_path ps) (dll_path ps))
          (((disk st)(dll_new_path ps := None))(dll_path ps := disk st (dll_new_path ps))) st"
        and ne: "disk st (dll_new_path ps) \<noteq> None"
        by (simp_all add: try_rename_Some)
      have chk: "\<not> path_exists (disk st1) (dll_new_path ps) \<and> path_exists (disk st1) (dll_path ps)"
        using nd ne by (simp add: st1 path_exists_def)
      let ?st2 = "log_msg (RebuiltOk (dll_name ps)) (st1\<lparr>replaced := True, any_replaced := True\<rparr>)"
      from True Some chk r have res: "ctl = Break" "st' = cleanup_backup env ps attempt ?st2"
        by (simp_all add: promote_new_def)
      have p2: "was_promoted ps ?st2"
        by (simp add: st1 was_promoted_def log_msg_def fs_write_def)
      have d2: "disk ?st2 (dll_new_path ps) = None" "disk ?st2 (dll_path ps) \<noteq> None"
        using nd ne by (simp_all add: st1)
      from res d2 cleanup_backup_fields(1) [OF o(1)] cleanup_backup_fields(1) [OF o(2)]
        cleanup_backup_fields(4) [OF o(1) p2]
      show ?thesis by simp
    qed
  qed
qed

lemma swap_attempt_commit:
  assumes D: "distinct [dll_path ps, dll_new_path ps, dll_old_path ps]"
      and N: "\<not> replaced st"
      and r: "swap_attempt env ps attempt st = (ctl, st')"
  shows "attempts st' = Suc (attempts st)"
    and "replaced st' \<Longrightarrow> ctl = Break \<and> disk st' (dll_new_path ps) = None
           \<and> disk st' (dll_path ps) \<noteq> None \<and> was_promoted ps st'"
proof -
  let ?st0 = "st\<lparr>attempts := Suc (attempts st)\<rparr>"
  have N0: "\<not> replaced ?st0" using N by simp
  have both: "attempts st' = Suc (attempts st) \<and> (replaced st' \<longrightarrow> ctl = Break
      \<and> disk st' (dll_new_path ps) = None \<and> disk st' (dll_path ps) \<noteq> None \<and> was_promoted ps st')"
  proof (cases "path_exists (disk ?st0) (dll_path ps)")
    case False
    with r have "promote_new env ps attempt ?st0 = (ctl, st')"
      by (simp add: swap_attempt_def Let_def)
    from promote_new_commit [OF D N0 this] show ?thesis by simp
  next
    case True
    show ?thesis
    proof (cases "retire_old env ps attempt ?st0")
      case (Inl st1)
      with retire_old_replaced [where env = env and ps = ps and attempt = attempt and st = ?st0] N
      have f: "\<not> replaced st1" "attempts st1 = Suc (attempts st)" by simp_all
      from Inl True r have "still_locked attempt st1 = (ctl, st')"
        by (simp add: swap_attempt_def Let_def)
      then have "st' = snd (still_locked attempt st1)" by simp
      with f show ?thesis by simp
    next
      case (Inr st1)
      with retire_old_replaced [where env = env and ps = ps and attempt = attempt and st = ?st0] N
      have f: "\<not> replaced st1" "attempts st1 = Suc (attempts st)" by simp_all
      from Inr True r have "promote_new env ps attempt st1 = (ctl, st')"
        by (simp add: swap_attempt_def Let_def)
      from promote_new_commit [OF D f(1) this] f(2) show ?thesis by simp
    qed
  qed
  from both show "attempts st' = Suc (attempts st)" by simp
  assume "replaced st'"
  with both show "ctl = Break \<and> disk st' (dll_new_path ps) = None
           \<and> disk st' (dll_path ps) \<noteq> None \<and> was_promoted ps st'" by simp
qed

lemma swap_loop_commit:
  assumes D: "distinct [dll_path ps, dll_new_path ps, dll_old_path ps]"
  shows "\<not> replaced st \<Longrightarrow>
       attempts (swap_loop env ps todo st) \<le> attempts st + length todo
       \<and> (replaced (swap_loop env ps todo st) \<longrightarrow>
            disk (swap_loop env ps todo st) (dll_new_path ps) = None
            \<and> disk (swap_loop env ps todo st) (dll_path ps) \<noteq> None
            \<and> was_promoted ps (swap_loop env ps todo st))"
proof (induction todo arbitrary: st)
  case Nil
  then show ?case by simp
next
  case (Cons attempt rest)
  obtain ctl st' where r: "swap_attempt env ps attempt st = (ctl, st')"
    by (cases "swap_attempt env ps attempt st")
  note c = swap_attempt_commit [OF D Cons.prems r]
  show ?case
  proof (cases ctl)
    case Break
    with r c show ?thesis by simp
  next
    case Continue
    with c(2) have "\<not> replaced st'" by auto
    from Cons.IH [OF this] c(1) r Continue show ?thesis by simp
  qed
qed

lemma replace_dll_commit:
  assumes D: "distinct [dll_path ps, dll_new_path ps, dll_old_path ps]"
  shows "attempts (replace_dll env ps fs0 log0 any0) \<le> max_retries"
    and "replaced (replace_dll env ps fs0 log0 any0) \<Longrightarrow>
           disk (replace_dll env ps fs0 log0 any0) (dll_new_path ps) = None
           \<and> disk (replace_dll env ps fs0 log0 any0) (dll_path ps) \<noteq> None
           \<and> was_promoted ps (replace_dll env ps fs0 log0 any0)"
proof -
  have n: "\<not> replaced (swap_start fs0 log0 any0)" by (simp add: swap_start_def)
  note c = swap_loop_commit [OF D n, of env "[0..<max_retries]"]
  from c show "attempts (replace_dll env ps fs0 log0 any0) \<le> max_retries"
    by (simp add: replace_dll_def Let_def swap_start_def)
  assume "replaced (replace_dll env ps fs0 log0 any0)"
  with c show "disk (replace_dll env ps fs0 log0 any0) (dll_new_path ps) = None
           \<and> disk (replace_dll env ps fs0 log0 any0) (dll_path ps) \<noteq> None
           \<and> was_promoted ps (replace_dll env ps fs0 log0 any0)"
    by (simp add: replace_dll_def Let_def was_promoted_def split: if_splits)
qed

lemma valid_step_promote:
  assumes D: "distinct [dll_path ps, dll_new_path ps, dll_old_path ps]"
      and V: "valid_step ps (OpRename (dll_new_path ps) (dll_path ps), before, after)"
  shows "after (dll_new_path ps) = None \<and> after (dll_path ps) \<noteq> None"
  using D V by (auto simp: valid_step_def)

lemma valid_step_safe:
  assumes D: "distinct [dll_path ps, dll_new_path ps, dll_old_path ps]"
      and V: "valid_step ps step"
  shows "retire_safe ps step"
  using D V by (cases step) (auto simp: valid_step_def retire_safe_def split: option.splits)

lemma dll_paths_D:
  "distinct [dll_path (dll_paths_of d c), dll_new_path (dll_paths_of d c),
             dll_old_path (dll_paths_of d c)]"
  using dll_paths_distinct [of d c] by simp




text \<open>
  C1. Commit invariant: when the swap of a DLL is marked replaced, the second rename
  (new DLL to loaded path) has succeeded, and at loop exit the staging path
  \<open>*.dll.new\<close> no longer exists and the loaded path \<open>*.dll\<close> exists; the same holds
  of the file system right after every successful second rename.
\<close>

theorem commit_invariant:
  assumes ps: "ps = dll_paths_of project_dir dll_cpp_path"
      and st': "st' = replace_dll env ps fs0 log0 any0"
      and rep: "replaced st'"
  shows "was_promoted ps st'
       \<and> disk st' (dll_new_path ps) = None \<and> disk st' (dll_path ps) \<noteq> None
       \<and> (\<forall>(op, before, after) \<in> set (trace st').
            op = OpRename (dll_new_path ps) (dll_path ps) \<longrightarrow>
              after (dll_new_path ps) = None \<and> after (dll_path ps) \<noteq> None)"
proof -
  have D: "distinct [dll_path ps, dll_new_path ps, dll_old_path ps]"
    unfolding ps by (rule dll_paths_D)
  from replace_dll_commit(2) [OF D, of env fs0 log0 any0] rep
  have a: "was_promoted ps st' \<and> disk st' (dll_new_path ps) = None
      \<and> disk st' (dll_path ps) \<noteq> None"
    by (simp add: st')
  from replace_dll_valid [OF D, of env fs0 log0 any0]
  have "\<forall>step \<in> set (trace st'). valid_step ps step"
    by (simp add: st' list_all_iff)
  with valid_step_promote [OF D]
  have "\<forall>(op, before, after) \<in> set (trace st').
            op = OpRename (dll_new_path ps) (dll_path ps) \<longrightarrow>
              after (dll_new_path ps) = None \<and> after (dll_path ps) \<noteq> None"
    by blast
  with a show ?thesis by simp
qed

text \<open>
  C2. Abandon leaves the loaded module untouched: when the loaded DLL exists and the
  first rename (loaded path to backup path) never succeeds, the loop uses all 15
  attempts, the swap is not marked replaced, and no operation of the loop touches the
  loaded path: the only operations are removals of the old backup, and the content of
  the loaded path is, before and after each of them and at loop exit, what it was before
  the loop.
\<close>

theorem abandon_leaves_loaded_untouched:
  assumes ps: "ps = dll_paths_of project_dir dll_cpp_path"
      and st': "st' = replace_dll env ps fs0 log0 any0"
      and ex: "fs0 (dll_path ps) = Some c"
      and nr: "\<not> was_retired ps st'"
  shows "attempts st' = max_retries \<and> max_retries = 15 \<and> \<not> replaced st'
       \<and> disk st' (dll_path ps) = Some c
       \<and> (\<forall>(op, before, after) \<in> set (trace st').
            op = OpRemove (dll_old_path ps)
            \<and> before (dll_path ps) = Some c \<and> after (dll_path ps) = Some c)"
proof -
  have D: "distinct [dll_path ps, dll_new_path ps, dll_old_path ps]"
    unfolding ps by (rule dll_paths_D)
  let ?n0 = "fs0 (dll_new_path ps)"
  from replace_dll_phase [where ps = ps and start = fs0 and c = c and env = env and
      logs = log0 and anyr = any0, OF D ex] nr
  have U: "untouched ps c ?n0 st'"
    by (auto simp: st' dest: phases_exclusive)
  let ?loop = "swap_loop env ps [0..<max_retries] (swap_start fs0 log0 any0)"
  from U have UL: "untouched ps c ?n0 ?loop"
    by (simp add: st' replace_dll_def Let_def split: if_splits)
  have U0: "untouched ps c ?n0 (swap_start fs0 log0 any0)"
    using ex by (simp add: untouched_def swap_start_def)
  have "attempts ?loop = attempts (swap_start fs0 log0 any0) + (max_retries - 0)"
    by (rule swap_loop_untouched_attempts [OF D U0 _ UL]) simp
  then have att: "attempts st' = max_retries"
    by (simp add: st' replace_dll_def Let_def swap_start_def)
  from U att show ?thesis
    by (auto simp: untouched_def list_all_iff max_retries_def)
qed

text \<open>
  C3. Recoverability on an abandoned swap: when the loaded DLL existed, the first rename
  (loaded path to backup path) has succeeded and the second rename (new DLL to loaded
  path) never succeeds, then at loop exit the backup path holds the previous loaded
  module, the loaded path is absent, the staging artifact \<open>*.dll.new\<close> is as the compiler
  left it, and the swap is not marked replaced.
\<close>

theorem abandoned_swap_recoverable:
  assumes ps: "ps = dll_paths_of project_dir dll_cpp_path"
      and st': "st' = replace_dll env ps fs0 log0 any0"
      and ex: "fs0 (dll_path ps) = Some c"
      and re: "was_retired ps st'"
      and np: "\<not> was_promoted ps st'"
  shows "disk st' (dll_old_path ps) = Some c \<and> disk st' (dll_path ps) = None
       \<and> disk st' (dll_new_path ps) = fs0 (dll_new_path ps) \<and> \<not> replaced st'"
proof -
  have D: "distinct [dll_path ps, dll_new_path ps, dll_old_path ps]"
    unfolding ps by (rule dll_paths_D)
  from replace_dll_phase [where ps = ps and start = fs0 and c = c and env = env and
      logs = log0 and anyr = any0, OF D ex] re np
  have "retired ps c (fs0 (dll_new_path ps)) st'"
    by (auto simp: st' dest: phases_exclusive)
  then show ?thesis by (simp add: retired_def)
qed

text \<open>
  C4. Backup before retire: no step of the swap loop removes the loaded path, and
  whenever a step changes what the loaded path holds, the previous loaded module is at
  the backup path \<open>*.dll.old\<close> right after that step. The steps recorded are all the
  changes of the file system: they form a chain from the initial file system to the
  final one.
\<close>

theorem backup_before_retire:
  assumes ps: "ps = dll_paths_of project_dir dll_cpp_path"
      and st': "st' = replace_dll env ps fs0 log0 any0"
  shows "(\<forall>step \<in> set (trace st'). retire_safe ps step)
       \<and> trace_chain fs0 (trace st') (disk st')"
proof -
  have D: "distinct [dll_path ps, dll_new_path ps, dll_old_path ps]"
    unfolding ps by (rule dll_paths_D)
  from replace_dll_valid [OF D, of env fs0 log0 any0] valid_step_safe [OF D]
  show ?thesis by (auto simp: st' list_all_iff)
qed


theorem commit_invariant_witness:
  "replaced (replace_dll (env_locked_for 3) example_paths example_fs [] False)
   \<and> attempts (replace_dll (env_locked_for 3) example_paths example_fs [] False) = 4
   \<and> disk (replace_dll (env_locked_for 3) example_paths example_fs [] False) ''proj/spin.dll.new''
       = None
   \<and> disk (replace_dll (env_locked_for 3) example_paths example_fs [] False) ''proj/spin.dll''
       \<noteq> None
   \<and> fst (trace (replace_dll (env_locked_for 3) example_paths example_fs [] False) ! 1)
       = OpRename ''proj/spin.dll.new'' ''proj/spin.dll''
   \<and> snd (snd (trace (replace_dll (env_locked_for 3) example_paths example_fs [] False) ! 1))
         ''proj/spin.dll.new'' = None
   \<and> snd (snd (trace (replace_dll (env_locked_for 3) example_paths example_fs [] False) ! 1))
         ''proj/spin.dll'' \<noteq> None"
proof -
  let ?st = "replace_dll (env_locked_for 3) example_paths example_fs [] False"
  have ps: "example_paths = dll_paths_of ''proj'' ''proj/spin_hot.dll.cpp''"
    by (simp add: example_paths_def)
  have rep: "replaced ?st" by code_simp
  have att: "attempts ?st = 4" by code_simp
  have paths: "dll_new_path example_paths = ''proj/spin.dll.new''"
      "dll_path example_paths = ''proj/spin.dll''"
    by code_simp+
  have len: "length (trace ?st) = 3" by code_simp
  then have mem: "trace ?st ! 1 \<in> set (trace ?st)" by simp
  have op: "fst (trace ?st ! 1) = OpRename ''proj/spin.dll.new'' ''proj/spin.dll''"
    by code_simp
  note t = commit_invariant [OF ps refl rep]
  from t mem op paths
  have step: "snd (snd (trace ?st ! 1)) ''proj/spin.dll.new'' = None
      \<and> snd (snd (trace ?st ! 1)) ''proj/spin.dll'' \<noteq> None"
    by (cases "trace ?st ! 1") force
  from t paths rep att op step show ?thesis by simp
qed

theorem abandon_leaves_loaded_untouched_witness:
  "backup_fs ''proj/spin.dll'' = Some ''v1''
   \<and> \<not> was_retired example_paths
         (replace_dll (env_locked_for 15) example_paths backup_fs [] False)
   \<and> attempts (replace_dll (env_locked_for 15) example_paths backup_fs [] False) = 15
   \<and> \<not> replaced (replace_dll (env_locked_for 15) example_paths backup_fs [] False)
   \<and> disk (replace_dll (env_locked_for 15) example_paths backup_fs [] False) ''proj/spin.dll''
       = Some ''v1''
   \<and> map fst (trace (replace_dll (env_locked_for 15) example_paths backup_fs [] False))
       = [OpRemove ''proj/spin.dll.old'']
   \<and> snd (snd (trace (replace_dll (env_locked_for 15) example_paths backup_fs [] False) ! 0))
         ''proj/spin.dll'' = Some ''v1''"
proof -
  let ?st = "replace_dll (env_locked_for 15) example_paths backup_fs [] False"
  have ps: "example_paths = dll_paths_of ''proj'' ''proj/spin_hot.dll.cpp''"
    by (simp add: example_paths_def)
  have path: "dll_path example_paths = ''proj/spin.dll''" by code_simp
  have ex: "backup_fs (dll_path example_paths) = Some ''v1''"
    by (simp add: path backup_fs_def)
  have nr: "\<not> was_retired example_paths ?st" by code_simp
  have ops: "map fst (trace ?st) = [OpRemove ''proj/spin.dll.old'']" by code_simp
  then have "length (trace ?st) = 1" by (metis length_map length_Cons list.size(3) One_nat_def)
  then have mem: "trace ?st ! 0 \<in> set (trace ?st)" by simp
  note t = abandon_leaves_loaded_untouched [OF ps refl ex nr]
  from t mem path have step: "snd (snd (trace ?st ! 0)) ''proj/spin.dll'' = Some ''v1''"
    by (cases "trace ?st ! 0") force
  from t path ex nr ops step show ?thesis
    by (simp add: max_retries_def)
qed

theorem abandoned_swap_recoverable_witness:
  "example_fs ''proj/spin.dll'' = Some ''v1''
   \<and> was_retired example_paths
         (replace_dll env_promote_refused example_paths example_fs [] False)
   \<and> \<not> was_promoted example_paths
         (replace_dll env_promote_refused example_paths example_fs [] False)
   \<and> disk (replace_dll env_promote_refused example_paths example_fs [] False)
         ''proj/spin.dll.old'' = Some ''v1''
   \<and> disk (replace_dll env_promote_refused example_paths example_fs [] False)
         ''proj/spin.dll'' = None
   \<and> disk (replace_dll env_promote_refused example_paths example_fs [] False)
         ''proj/spin.dll.new'' = Some ''v2''"
proof -
  let ?st = "replace_dll env_promote_refused example_paths example_fs [] False"
  have ps: "example_paths = dll_paths_of ''proj'' ''proj/spin_hot.dll.cpp''"
    by (simp add: example_paths_def)
  have paths: "dll_path example_paths = ''proj/spin.dll''"
      "dll_new_path example_paths = ''proj/spin.dll.new''"
      "dll_old_path example_paths = ''proj/spin.dll.old''"
    by code_simp+
  have ex: "example_fs (dll_path example_paths) = Some ''v1''"
    by (simp add: paths example_fs_def)
  have re: "was_retired example_paths ?st" by code_simp
  have np: "\<not> was_promoted example_paths ?st" by code_simp
  have n0: "example_fs ''proj/spin.dll.new'' = Some ''v2''"
    by (simp add: example_fs_def)
  from abandoned_swap_recoverable [OF ps refl ex re np] paths ex re np n0 show ?thesis
    by simp
qed

theorem backup_before_retire_witness:
  "map fst (trace (replace_dll (env_locked_for 3) example_paths example_fs [] False))
     = [OpRename ''proj/spin.dll'' ''proj/spin.dll.old'',
        OpRename ''proj/spin.dll.new'' ''proj/spin.dll'',
        OpRemove ''proj/spin.dll.old'']
   \<and> list_all (retire_safe example_paths)
         (trace (replace_dll (env_locked_for 3) example_paths example_fs [] False))"
proof -
  let ?st = "replace_dll (env_locked_for 3) example_paths example_fs [] False"
  have ps: "example_paths = dll_paths_of ''proj'' ''proj/spin_hot.dll.cpp''"
    by (simp add: example_paths_def)
  have ops: "map fst (trace ?st)
     = [OpRename ''proj/spin.dll'' ''proj/spin.dll.old'',
        OpRename ''proj/spin.dll.new'' ''proj/spin.dll'',
        OpRemove ''proj/spin.dll.old'']" by code_simp
  from backup_before_retire [OF ps refl, of "env_locked_for 3" example_fs "[]" False] ops
  show ?thesis by (simp add: list_all_iff)
qed



end
